theory Spec2Isabelle
  imports Main "HOL-Library.Sublist" "HOL-Library.Multiset"
begin

section \<open>Python values and strings\<close>

text \<open>
  The issue records handled by the application are Python dictionaries whose values come
  either from string literals of the program or from a decoded JSON answer. The values
  modelled here are \<open>None\<close>, booleans, integers and strings; a dictionary is a map from
  keys to such values. A string is a list of characters, a character being a code point
  from 0 to 255; the character classes and the lower-casing below are those of Python on
  these 256 code points. Text with code points beyond 255 is not covered.
\<close>

datatype pyval = PNone | PBool bool | PInt int | PStr string

datatype py_error = AttributeError | PackageNotFoundError | ValueError

type_synonym pydict = "string \<rightharpoonup> pyval"

text \<open>\<open>d.get(k, default)\<close>\<close>

definition dict_get :: "pydict \<Rightarrow> string \<Rightarrow> pyval \<Rightarrow> pyval" where
  "dict_get d k dflt = (case d k of None \<Rightarrow> dflt | Some v \<Rightarrow> v)"

text \<open>Truth value of an object, as tested by \<open>if v:\<close> and by \<open>v or w\<close>.\<close>

fun py_truthy :: "pyval \<Rightarrow> bool" where
  "py_truthy PNone = False"
| "py_truthy (PBool b) = b"
| "py_truthy (PInt i) = (i \<noteq> 0)"
| "py_truthy (PStr s) = (s \<noteq> [])"

definition py_or :: "pyval \<Rightarrow> pyval \<Rightarrow> pyval" where
  "py_or v w = (if py_truthy v then v else w)"

definition digit_char :: "nat \<Rightarrow> char" where
  "digit_char d = char_of (48 + d)"

fun nat_digits :: "nat \<Rightarrow> string" where
  "nat_digits n = (if n < 10 then [digit_char n] else nat_digits (n div 10) @ [digit_char (n mod 10)])"

declare nat_digits.simps [simp del]

text \<open>\<open>str(v)\<close>, which is what an f-string puts in place of \<open>{v}\<close>.\<close>

fun py_str :: "pyval \<Rightarrow> string" where
  "py_str PNone = ''None''"
| "py_str (PBool b) = (if b then ''True'' else ''False'')"
| "py_str (PInt i) = (if i < 0 then CHR ''-'' # nat_digits (nat (- i)) else nat_digits (nat i))"
| "py_str (PStr s) = s"

text \<open>
  The class \<open>\w\<close> of the regular expressions, which also decides the word boundaries:
  the digits, the letters and the underscore of ASCII, and among the code points from 128
  on the letters, the superscript digits and the fractions.
\<close>

definition is_word_char :: "char \<Rightarrow> bool" where
  "is_word_char c = (let n = (of_char c :: nat) in
     if n < 128
     then (48 \<le> n \<and> n \<le> 57) \<or> (65 \<le> n \<and> n \<le> 90) \<or> n = 95 \<or> (97 \<le> n \<and> n \<le> 122)
     else n = 170 \<or> n = 178 \<or> n = 179 \<or> n = 181 \<or> n = 185 \<or> n = 186
          \<or> (188 \<le> n \<and> n \<le> 190) \<or> (192 \<le> n \<and> n \<le> 214) \<or> (216 \<le> n \<and> n \<le> 246)
          \<or> (248 \<le> n \<and> n \<le> 255))"

text \<open>
  The class \<open>\s\<close> of the regular expressions, which is also what \<open>strip\<close> removes: the
  ASCII white space, the four separators 28 to 31, the next-line character 133 and the
  no-break space 160.
\<close>

definition is_space_char :: "char \<Rightarrow> bool" where
  "is_space_char c = (let n = (of_char c :: nat) in
     (9 \<le> n \<and> n \<le> 13) \<or> (28 \<le> n \<and> n \<le> 32) \<or> n = 133 \<or> n = 160)"

text \<open>
  Lower-casing of one code point: the capital letters of ASCII and the capital letters
  192 to 222, the multiplication sign 215 left out, move up by 32.
\<close>

definition lower_char :: "char \<Rightarrow> char" where
  "lower_char c = (let n = (of_char c :: nat) in
     if (65 \<le> n \<and> n \<le> 90) \<or> (192 \<le> n \<and> n \<le> 214) \<or> (216 \<le> n \<and> n \<le> 222)
     then char_of (n + 32) else c)"

text \<open>\<open>s.lower()\<close> on a string.\<close>

definition lower :: "string \<Rightarrow> string" where
  "lower s = map lower_char s"

text \<open>\<open>v.lower()\<close> on an object: only strings have the method.\<close>

fun py_lower :: "pyval \<Rightarrow> py_error + string" where
  "py_lower (PStr s) = Inr (lower s)"
| "py_lower v = Inl AttributeError"

text \<open>\<open>s.strip()\<close>\<close>

definition strip :: "string \<Rightarrow> string" where
  "strip s = rev (dropWhile is_space_char (rev (dropWhile is_space_char s)))"

text \<open>
  \<open>re.split(sep+, s)\<close> for a class \<open>sep\<close> of single characters: the pieces between the
  maximal runs of separator characters, an empty piece included where the string starts or
  ends with a separator. \<open>tok\<close> is the piece being read, \<open>in_sep\<close> tells that the last
  character read was a separator.
\<close>

fun split_runs :: "(char \<Rightarrow> bool) \<Rightarrow> string \<Rightarrow> bool \<Rightarrow> string \<Rightarrow> string list" where
  "split_runs sep tok in_sep [] = [tok]"
| "split_runs sep tok in_sep (c # cs) =
     (if \<not> sep c then split_runs sep (tok @ [c]) False cs
      else if in_sep then split_runs sep tok True cs
      else tok # split_runs sep [] True cs)"

definition re_split :: "(char \<Rightarrow> bool) \<Rightarrow> string \<Rightarrow> string list" where
  "re_split sep s = split_runs sep [] False s"

text \<open>\<open>re.split(r"\W+", s)\<close> and \<open>re.split(r"\s+", s)\<close>\<close>

definition re_split_nonword :: "string \<Rightarrow> string list" where
  "re_split_nonword s = re_split (\<lambda>c. \<not> is_word_char c) s"

definition re_split_space :: "string \<Rightarrow> string list" where
  "re_split_space s = re_split is_space_char s"

text \<open>
  \<open>re.search(r"\b(a1|a2|...)\b", s)\<close> for literal alternatives: there is a position where
  one of the alternatives occurs with a word boundary on both sides. A word boundary lies
  between a word character and a character that is not one, the two ends of the string
  counting as not one.
\<close>

definition word_at :: "string \<Rightarrow> nat \<Rightarrow> bool" where
  "word_at s i = (i < length s \<and> is_word_char (s ! i))"

definition boundary_at :: "string \<Rightarrow> nat \<Rightarrow> bool" where
  "boundary_at s i = ((0 < i \<and> word_at s (i - 1)) \<noteq> word_at s i)"

definition matches_at :: "string \<Rightarrow> string \<Rightarrow> nat \<Rightarrow> bool" where
  "matches_at alt s i =
     (prefix alt (drop i s) \<and> boundary_at s i \<and> boundary_at s (i + length alt))"

definition re_search_words :: "string list \<Rightarrow> string \<Rightarrow> bool" where
  "re_search_words alts s =
     list_ex (\<lambda>i. list_ex (\<lambda>alt. matches_at alt s i) alts) [0 ..< Suc (length s)]"

section \<open>classifier.py\<close>

definition word_count :: "string \<Rightarrow> nat" where
  "word_count text_l = length (filter (\<lambda>w. strip w \<noteq> []) (re_split_space text_l))"

definition classify_doc_type :: "string \<Rightarrow> string" where
  "classify_doc_type txt =
    (let text_l = lower txt in
     if re_search_words [''aoa'', ''articles of association'', ''article of association''] text_l
       then ''Articles of Association''
     else if re_search_words [''moa'', ''memorandum of association'', ''memorandum''] text_l
       then ''Memorandum of Association''
     else if re_search_words [''ubo'', ''ultimate beneficial owner'',
                              ''ultimate beneficial owner declaration''] text_l
       then ''UBO Declaration Form''
     else if re_search_words [''register of members and directors'', ''register of members'',
                              ''register of directors''] text_l
       then ''Register of Members and Directors''
     else if re_search_words [''incorporation application'', ''application for incorporation'',
                              ''application to incorporate'', ''incorporation form''] text_l
       then ''Incorporation Application Form''
     else if word_count text_l < 40
       then ''Short Document''
     else if re_search_words [''agreement'', ''contract'', ''terms'', ''conditions''] text_l
       then ''Commercial Agreement / Other''
     else ''Commercial Agreement / Other'')"

definition incorporation_keywords :: "string set" where
  "incorporation_keywords =
     set [''Articles of Association'', ''Memorandum of Association'',
          ''Incorporation Application Form'', ''UBO Declaration Form'',
          ''Register of Members and Directors'']"

text \<open>\<open>sum(1 for pt in predicted_types if pt in incorporation_keywords)\<close>\<close>

fun count_core :: "string list \<Rightarrow> nat" where
  "count_core [] = 0"
| "count_core (pt # pts) = (if pt \<in> incorporation_keywords then 1 + count_core pts else count_core pts)"

definition detect_process :: "string list \<Rightarrow> string" where
  "detect_process predicted_types =
    (if predicted_types = [] then ''Unknown / Other''
     else if count_core predicted_types \<ge> 2 then ''Company Incorporation''
     else ''Unknown / Other'')"

section \<open>docx\_utils.py\<close>

text \<open>
  A loaded document is the list of the texts of its body paragraphs, in document order.
  The file system is a map from paths to stored documents, and opening a path that holds
  no document raises.
\<close>

type_synonym document = "string list"

type_synonym docx_store = "string \<rightharpoonup> document"

definition Document :: "docx_store \<Rightarrow> string \<Rightarrow> py_error + document" where
  "Document store p = (case store p of None \<Rightarrow> Inl PackageNotFoundError | Some doc \<Rightarrow> Inr doc)"

record parsed_doc =
  doc_path :: string
  doc_text :: string
  doc_paragraphs :: "string list"

text \<open>\<open>"\n".join(paras)\<close>\<close>

fun join_newline :: "string list \<Rightarrow> string" where
  "join_newline [] = []"
| "join_newline [p] = p"
| "join_newline (p # q # ps) = p @ CHR 0x0A # join_newline (q # ps)"

fun parse_docx_documents :: "docx_store \<Rightarrow> string list \<Rightarrow> py_error + parsed_doc list" where
  "parse_docx_documents store [] = Inr []"
| "parse_docx_documents store (p # paths) =
     (case Document store p of
        Inl e \<Rightarrow> Inl e
      | Inr doc \<Rightarrow>
          (let paras = filter (\<lambda>t. t \<noteq> [] \<and> strip t \<noteq> []) doc;
               full_text = join_newline paras;
               entry = \<lparr>doc_path = p, doc_text = full_text, doc_paragraphs = paras\<rparr>
           in case parse_docx_documents store paths of
                Inl e \<Rightarrow> Inl e
              | Inr out \<Rightarrow> Inr (entry # out)))"

text \<open>
  \<open>[t for t in re.split(r"\W+", (v or "").lower()) if len(t) > 3]\<close>
\<close>

definition long_tokens :: "pyval \<Rightarrow> py_error + string list" where
  "long_tokens v =
     (case py_lower (py_or v (PStr [])) of
        Inl e \<Rightarrow> Inl e
      | Inr s \<Rightarrow> Inr (filter (\<lambda>t. length t > 3) (re_split_nonword s)))"

text \<open>
  The two inner loops over the tokens: \<open>w\<close> is added to the score for each token of the
  list that is a substring of \<open>pl\<close>.
\<close>

fun add_hits :: "nat \<Rightarrow> string \<Rightarrow> string list \<Rightarrow> nat \<Rightarrow> nat" where
  "add_hits w pl [] score = score"
| "add_hits w pl (tok # toks) score =
     add_hits w pl toks (if sublist tok pl then score + w else score)"

definition para_score :: "string list \<Rightarrow> string list \<Rightarrow> string \<Rightarrow> nat" where
  "para_score section_tokens issue_tokens para =
     (let pl = lower para in add_hits 1 pl issue_tokens (add_hits 2 pl section_tokens 0))"

text \<open>The loop over \<open>enumerate(doc.paragraphs)\<close>, from index \<open>i\<close> on.\<close>

fun best_scan :: "string list \<Rightarrow> string list \<Rightarrow> nat \<Rightarrow> string list \<Rightarrow> nat option \<times> nat
    \<Rightarrow> nat option \<times> nat" where
  "best_scan st it i [] (best_idx, best_score) = (best_idx, best_score)"
| "best_scan st it i (para # paras) (best_idx, best_score) =
     (let score = para_score st it para in
      if score > best_score then best_scan st it (Suc i) paras (Some i, score)
      else best_scan st it (Suc i) paras (best_idx, best_score))"

definition find_paragraph_index_for_issue :: "document \<Rightarrow> pyval \<Rightarrow> pyval \<Rightarrow> py_error + nat option" where
  "find_paragraph_index_for_issue doc section issue_text =
     (case long_tokens section of
        Inl e \<Rightarrow> Inl e
      | Inr section_tokens \<Rightarrow>
     (case long_tokens issue_text of
        Inl e \<Rightarrow> Inl e
      | Inr issue_tokens \<Rightarrow>
          (let (best_idx, best_score) = best_scan section_tokens issue_tokens 0 doc (None, 0)
           in if best_score \<ge> 1 then Inr best_idx else Inr None)))"

text \<open>
  Writing a text into a run of a paragraph, as the docx library does it. The text is read
  character by character: a tab becomes a tab element, a line feed or a carriage return
  becomes a line break, and the characters between them are collected and put into one
  text element when the next tab or break, or the end, is reached. The XML library takes
  the text of an element only if all its characters are XML characters and raises
  \<open>ValueError\<close> otherwise, before the element is added; what went into the run before
  stays. \<open>content\<close> is the text the paragraph reads back as, where a line break reads
  as a line feed, and \<open>bfr\<close> holds the characters collected.
\<close>

definition xml_char :: "char \<Rightarrow> bool" where
  "xml_char c = (let n = (of_char c :: nat) in n = 9 \<or> n = 10 \<or> n = 13 \<or> 32 \<le> n)"

definition flush :: "string \<Rightarrow> string \<Rightarrow> py_error option \<times> string" where
  "flush content bfr =
     (if bfr = [] then (None, content)
      else if list_all xml_char bfr then (None, content @ bfr)
      else (Some ValueError, content))"

fun append_to_run :: "string \<Rightarrow> string \<Rightarrow> string \<Rightarrow> py_error option \<times> string" where
  "append_to_run content bfr [] = flush content bfr"
| "append_to_run content bfr (c # cs) =
     (if c = CHR 0x09 then
        (case flush content bfr of
           (Some e, content1) \<Rightarrow> (Some e, content1)
         | (None, content1) \<Rightarrow> append_to_run (content1 @ [CHR 0x09]) [] cs)
      else if c = CHR 0x0D \<or> c = CHR 0x0A then
        (case flush content bfr of
           (Some e, content1) \<Rightarrow> (Some e, content1)
         | (None, content1) \<Rightarrow> append_to_run (content1 @ [CHR 0x0A]) [] cs)
      else append_to_run content (bfr @ [c]) cs)"

text \<open>What a text reads back as once it is in a paragraph: line feeds for carriage returns.\<close>

definition stored_text :: "string \<Rightarrow> string" where
  "stored_text txt = map (\<lambda>c. if c = CHR 0x0D then CHR 0x0A else c) txt"

text \<open>
  \<open>paragraph.add_run(text)\<close> on a paragraph that is empty so far: the exception, if
  one is raised, and the text of the paragraph afterwards.
\<close>

definition add_run :: "string \<Rightarrow> py_error option \<times> string" where
  "add_run txt = (if txt = [] then (None, []) else append_to_run [] [] txt)"

text \<open>
  \<open>doc.add_paragraph(text)\<close>: a new paragraph at the end, then the text into a run of
  it. An exception leaves the function that called it, and the document is not looked at
  again.
\<close>

definition add_paragraph :: "document \<Rightarrow> string \<Rightarrow> py_error + document" where
  "add_paragraph doc txt =
     (case add_run txt of
        (Some e, content) \<Rightarrow> Inl e
      | (None, content) \<Rightarrow> Inr (doc @ [content]))"

text \<open>
  The new paragraph is first added empty at the end, filled, and then moved behind the
  paragraph at \<open>para_index\<close>. When filling it raises, or when the index is past the end so
  that the lookup of the target raises, the handler returns \<open>True\<close> all the same and the
  paragraph stays at the end with what went into it.
\<close>

definition insert_after_paragraph :: "document \<Rightarrow> nat \<Rightarrow> string \<Rightarrow> bool \<times> document" where
  "insert_after_paragraph doc para_index txt =
     (case add_run txt of
        (Some e, content) \<Rightarrow> (True, doc @ [content])
      | (None, content) \<Rightarrow>
          if para_index < length (doc @ [content])
          then (True, take (Suc para_index) doc @ [content] @ drop (Suc para_index) doc)
          else (True, doc @ [content]))"

text \<open>\<open>iss.get("section", "")\<close> and \<open>iss.get('issue', '')\<close>, the arguments of the lookup.\<close>

abbreviation section_of :: "pydict \<Rightarrow> pyval" where
  "section_of iss \<equiv> dict_get iss ''section'' (PStr [])"

abbreviation issue_of :: "pydict \<Rightarrow> pyval" where
  "issue_of iss \<equiv> dict_get iss ''issue'' (PStr [])"

abbreviation lookup_for :: "document \<Rightarrow> pydict \<Rightarrow> py_error + nat option" where
  "lookup_for doc iss \<equiv> find_paragraph_index_for_issue doc (section_of iss) (issue_of iss)"

definition note_text :: "pydict \<Rightarrow> string" where
  "note_text iss =
     ''REVIEW NOTE (severity='' @ py_str (dict_get iss ''severity'' (PStr ''Medium'')) @ ''): ''
     @ py_str (dict_get iss ''issue'' PNone) @ ''. Suggestion: ''
     @ py_str (dict_get iss ''suggestion'' (PStr []))"

definition general_note :: "pydict \<Rightarrow> string" where
  "general_note iss = ''REVIEW NOTE (general): '' @ note_text iss"

text \<open>
  One round of the loop over the issues. \<open>try_insert\<close> is the part up to the test of
  \<open>inserted\<close>: it gives the document and that flag. The fallback that follows is outside
  every handler, so an exception raised there leaves the whole function.
\<close>

definition try_insert :: "document \<Rightarrow> pydict \<Rightarrow> document \<times> bool" where
  "try_insert doc iss =
     (let section = section_of iss in
      if py_truthy section then
        (case find_paragraph_index_for_issue doc section (issue_of iss) of
           Inl e \<Rightarrow> (doc, False)
         | Inr None \<Rightarrow> (doc, False)
         | Inr (Some idx) \<Rightarrow> (snd (insert_after_paragraph doc idx (note_text iss)), True))
      else (doc, False))"

definition annotate_issue :: "document \<Rightarrow> pydict \<Rightarrow> py_error + document" where
  "annotate_issue doc iss =
     (let (doc1, inserted) = try_insert doc iss in
      if \<not> inserted then add_paragraph doc1 (general_note iss) else Inr doc1)"

fun annotate :: "document \<Rightarrow> pydict list \<Rightarrow> py_error + document" where
  "annotate doc [] = Inr doc"
| "annotate doc (iss # issues) =
     (case annotate_issue doc iss of
        Inl e \<Rightarrow> Inl e
      | Inr doc1 \<Rightarrow> annotate doc1 issues)"

definition insert_review_notes_and_save ::
    "docx_store \<Rightarrow> string \<Rightarrow> pydict list \<Rightarrow> string \<Rightarrow> py_error + docx_store \<times> string" where
  "insert_review_notes_and_save store original_path issues out_path =
     (case Document store original_path of
        Inl e \<Rightarrow> Inl e
      | Inr doc \<Rightarrow>
          (case annotate doc issues of
             Inl e \<Rightarrow> Inl e
           | Inr doc1 \<Rightarrow> Inr (store(out_path \<mapsto> doc1), out_path)))"

section \<open>app.py: the rule-based checks\<close>

definition jurisdiction_issue :: "string \<Rightarrow> pydict" where
  "jurisdiction_issue predicted_type =
     [''document'' \<mapsto> PStr predicted_type,
      ''section'' \<mapsto> PStr ''Jurisdiction clause'',
      ''issue'' \<mapsto> PStr ''Jurisdiction clause does not specify ADGM'',
      ''severity'' \<mapsto> PStr ''High'',
      ''suggestion'' \<mapsto> PStr ''Update jurisdiction to Abu Dhabi Global Market (ADGM) Courts.'']"

definition signatory_issue :: "string \<Rightarrow> pydict" where
  "signatory_issue predicted_type =
     [''document'' \<mapsto> PStr predicted_type,
      ''section'' \<mapsto> PStr ''Signatory section'',
      ''issue'' \<mapsto> PStr ''Missing explicit signatory or signature block'',
      ''severity'' \<mapsto> PStr ''Medium'',
      ''suggestion'' \<mapsto> PStr ''Add signatory name, title and date.'']"

text \<open>The issues the two basic checks append for one document, in the order of the code.\<close>

definition basic_checks :: "string \<Rightarrow> string \<Rightarrow> pydict list" where
  "basic_checks predicted_type txt =
     (if \<not> sublist ''adgm'' (lower txt) \<and> \<not> sublist ''abu dhabi global market'' (lower txt)
      then [jurisdiction_issue predicted_type] else [])
     @
     (if \<not> sublist ''signature'' (lower txt) \<and> \<not> sublist ''signed'' (lower txt)
      then [signatory_issue predicted_type] else [])"

section \<open>The paragraph lookup in the words of the specification\<close>

text \<open>
  The specification describes the lookup as follows: both texts are split at the runs of
  non-word characters, the pieces are lower-cased and the pieces of length at most three
  are dropped; a paragraph scores two for every section token and one for every issue
  token that is a substring of its lower-cased text.

  Splitting at the runs of a class of separators, said directly: a string without
  separator is one piece; otherwise the first piece is the longest prefix without
  separator, and the other pieces are those of what follows the whole run of separators
  behind it.
\<close>

function spec_pieces :: "(char \<Rightarrow> bool) \<Rightarrow> string \<Rightarrow> string list" where
  "spec_pieces sep s =
     (if \<forall>c \<in> set s. \<not> sep c then [s]
      else takeWhile (\<lambda>c. \<not> sep c) s
             # spec_pieces sep (dropWhile sep (dropWhile (\<lambda>c. \<not> sep c) s)))"
  by pat_completeness auto
termination
proof (relation "measure (\<lambda>(sep, s). length s)")
  show "wf (measure (\<lambda>(sep, s). length s))" by simp
next
  fix sep :: "char \<Rightarrow> bool" and s :: string
  assume "\<not> (\<forall>c \<in> set s. \<not> sep c)"
  then have "dropWhile (\<lambda>c. \<not> sep c) s \<noteq> []" by simp
  then obtain c rest where cr: "dropWhile (\<lambda>c. \<not> sep c) s = c # rest"
    by (cases "dropWhile (\<lambda>c. \<not> sep c) s") auto
  then have "sep c" using hd_dropWhile[of "\<lambda>c. \<not> sep c" s] by auto
  then have "length (dropWhile sep (dropWhile (\<lambda>c. \<not> sep c) s)) \<le> length rest"
    by (simp add: cr length_dropWhile_le)
  also have "length rest < length (dropWhile (\<lambda>c. \<not> sep c) s)" by (simp add: cr)
  also have "\<dots> \<le> length s" by (rule length_dropWhile_le)
  finally show "((sep, dropWhile sep (dropWhile (\<lambda>c. \<not> sep c) s)), (sep, s))
                  \<in> measure (\<lambda>(sep, s). length s)"
    by simp
qed

declare spec_pieces.simps [simp del]



section \<open>The classifier in the words of the specification\<close>

text \<open>
  The specification describes the classifier as an ordered list of rules, each a pattern
  test with a label, tried on the lower-cased text in the order Articles, Memorandum, UBO,
  Register, Incorporation Application; the first rule that matches gives the label. When
  none matches, a text of fewer than 40 white-space delimited tokens is a "Short Document"
  and any other text falls to the generic label. The patterns are those of the code.
\<close>

definition classify_rules :: "(string list \<times> string) list" where
  "classify_rules =
     [([''aoa'', ''articles of association'', ''article of association''],
         ''Articles of Association''),
      ([''moa'', ''memorandum of association'', ''memorandum''],
         ''Memorandum of Association''),
      ([''ubo'', ''ultimate beneficial owner'', ''ultimate beneficial owner declaration''],
         ''UBO Declaration Form''),
      ([''register of members and directors'', ''register of members'', ''register of directors''],
         ''Register of Members and Directors''),
      ([''incorporation application'', ''application for incorporation'',
        ''application to incorporate'', ''incorporation form''],
         ''Incorporation Application Form'')]"

fun first_match :: "(string list \<times> string) list \<Rightarrow> string \<Rightarrow> string option" where
  "first_match [] s = None"
| "first_match ((alts, label) # rules) s =
     (if re_search_words alts s then Some label else first_match rules s)"

text \<open>The white-space delimited tokens: the non-empty pieces between runs of white space.\<close>

definition token_count :: "string \<Rightarrow> nat" where
  "token_count s = length (filter (\<lambda>w. w \<noteq> []) (spec_pieces is_space_char s))"

definition classify_spec :: "string \<Rightarrow> string" where
  "classify_spec txt =
     (case first_match classify_rules (lower txt) of
        Some label \<Rightarrow> label
      | None \<Rightarrow> if token_count (lower txt) < 40 then ''Short Document''
                else ''Commercial Agreement / Other'')"

section \<open>Scores, the scan for the best paragraph, splitting\<close>



lemma best_scan_keep:
  "\<forall>p \<in> set paras. para_score st it p \<le> bs \<Longrightarrow>
     best_scan st it i paras (bi, bs) = (bi, bs)"
  by (induction paras arbitrary: i) (auto simp: Let_def)

text \<open>
  The scan either keeps the state it started from, when no paragraph beats the score so
  far, or ends at the first paragraph of the highest score.
\<close>

lemma best_scan_result:
  "best_scan st it i paras (bi, bs) = (ri, rs) \<Longrightarrow>
     (ri = bi \<and> rs = bs \<and> (\<forall>p \<in> set paras. para_score st it p \<le> bs))
   \<or> (\<exists>k < length paras. ri = Some (i + k) \<and> rs = para_score st it (paras ! k) \<and> bs < rs
         \<and> (\<forall>j < length paras. para_score st it (paras ! j) \<le> rs)
         \<and> (\<forall>j < k. para_score st it (paras ! j) < rs))"
proof (induction paras arbitrary: i bi bs)
  case Nil
  then show ?case by simp
next
  case (Cons para paras)
  let ?s = "para_score st it para"
  show ?case
  proof (cases "?s > bs")
    case True
    with Cons.prems have r: "best_scan st it (Suc i) paras (Some i, ?s) = (ri, rs)"
      by (simp add: Let_def)
    from Cons.IH[OF r] show ?thesis
    proof
      assume a: "ri = Some i \<and> rs = ?s \<and> (\<forall>p \<in> set paras. para_score st it p \<le> ?s)"
      have "\<forall>j < length (para # paras). para_score st it ((para # paras) ! j) \<le> rs"
        using a by (auto simp: nth_Cons split: nat.splits)
      with a True show ?thesis
        by (intro disjI2 exI[of _ 0]) auto
    next
      assume "\<exists>k<length paras. ri = Some (Suc i + k) \<and> rs = para_score st it (paras ! k) \<and> ?s < rs
         \<and> (\<forall>j < length paras. para_score st it (paras ! j) \<le> rs)
         \<and> (\<forall>j < k. para_score st it (paras ! j) < rs)"
      then obtain k where k: "k < length paras" "ri = Some (Suc i + k)"
        "rs = para_score st it (paras ! k)" "?s < rs"
        "\<forall>j < length paras. para_score st it (paras ! j) \<le> rs"
        "\<forall>j < k. para_score st it (paras ! j) < rs" by blast
      have 1: "\<forall>j < length (para # paras). para_score st it ((para # paras) ! j) \<le> rs"
        using k by (auto simp: nth_Cons split: nat.splits)
      have 2: "\<forall>j < Suc k. para_score st it ((para # paras) ! j) < rs"
        using k by (auto simp: nth_Cons split: nat.splits)
      show ?thesis
        using k True 1 2 by (intro disjI2 exI[of _ "Suc k"]) auto
    qed
  next
    case False
    with Cons.prems have r: "best_scan st it (Suc i) paras (bi, bs) = (ri, rs)"
      by (simp add: Let_def)
    from Cons.IH[OF r] show ?thesis
    proof
      assume "ri = bi \<and> rs = bs \<and> (\<forall>p \<in> set paras. para_score st it p \<le> bs)"
      with False show ?thesis by auto
    next
      assume "\<exists>k<length paras. ri = Some (Suc i + k) \<and> rs = para_score st it (paras ! k) \<and> bs < rs
         \<and> (\<forall>j < length paras. para_score st it (paras ! j) \<le> rs)
         \<and> (\<forall>j < k. para_score st it (paras ! j) < rs)"
      then obtain k where k: "k < length paras" "ri = Some (Suc i + k)"
        "rs = para_score st it (paras ! k)" "bs < rs"
        "\<forall>j < length paras. para_score st it (paras ! j) \<le> rs"
        "\<forall>j < k. para_score st it (paras ! j) < rs" by blast
      have 1: "\<forall>j < length (para # paras). para_score st it ((para # paras) ! j) \<le> rs"
        using k False by (auto simp: nth_Cons split: nat.splits)
      have 2: "\<forall>j < Suc k. para_score st it ((para # paras) ! j) < rs"
        using k False by (auto simp: nth_Cons split: nat.splits)
      show ?thesis
        using k 1 2 by (intro disjI2 exI[of _ "Suc k"]) auto
    qed
  qed
qed

text \<open>Lower-casing keeps word characters and commutes with the split at non-word runs.\<close>

lemma is_word_lower_char [simp]: "is_word_char (lower_char c) = is_word_char c"
  unfolding is_word_char_def lower_char_def Let_def
  by auto

lemma lower_char_idem [simp]: "lower_char (lower_char c) = lower_char c"
  unfolding lower_char_def Let_def
  by auto

lemma lower_idem [simp]: "lower (lower s) = lower s"
  by (simp add: lower_def)




text \<open>
  What \<open>re_split\<close> returns: a string without separator is its own single piece;
  otherwise the first piece is the longest prefix without separator, and the other pieces
  are those of what follows the run of separators behind that prefix.
\<close>

lemma split_runs_no_sep:
  "\<forall>c \<in> set s. \<not> sep c \<Longrightarrow> split_runs sep tok b s = [tok @ s]"
  by (induction s arbitrary: tok b) auto

lemma split_runs_first:
  "\<exists>c \<in> set s. sep c \<Longrightarrow>
     split_runs sep tok False s
       = (tok @ takeWhile (\<lambda>c. \<not> sep c) s) # split_runs sep [] True (dropWhile (\<lambda>c. \<not> sep c) s)"
proof (induction s arbitrary: tok)
  case Nil
  then show ?case by simp
next
  case (Cons c cs)
  show ?case
  proof (cases "sep c")
    case True
    then show ?thesis by simp
  next
    case False
    with Cons.prems have "\<exists>c \<in> set cs. sep c" by auto
    from Cons.IH[OF this, of "tok @ [c]"] False show ?thesis by simp
  qed
qed

lemma split_runs_skip:
  "split_runs sep [] True s = split_runs sep [] False (dropWhile sep s)"
  by (induction s) auto

lemma re_split_unfold:
  "re_split sep s =
     (if \<forall>c \<in> set s. \<not> sep c then [s]
      else takeWhile (\<lambda>c. \<not> sep c) s
             # re_split sep (dropWhile sep (dropWhile (\<lambda>c. \<not> sep c) s)))"
proof (cases "\<forall>c \<in> set s. \<not> sep c")
  case True
  then show ?thesis by (simp add: re_split_def split_runs_no_sep)
next
  case False
  then have "\<exists>c \<in> set s. sep c" by blast
  from split_runs_first[OF this, of "[]"]
  have "re_split sep s = takeWhile (\<lambda>c. \<not> sep c) s
             # re_split sep (dropWhile sep (dropWhile (\<lambda>c. \<not> sep c) s))"
    by (simp add: re_split_def split_runs_skip[of sep "dropWhile (\<lambda>c. \<not> sep c) s"])
  then show ?thesis
    by (simp only: if_not_P[OF False])
qed

lemma re_split_spec_pieces: "re_split sep s = spec_pieces sep s"
proof (induction sep s rule: spec_pieces.induct)
  case (1 sep s)
  show ?case
  proof (cases "\<forall>c \<in> set s. \<not> sep c")
    case True
    then show ?thesis
      by (simp add: re_split_unfold[of sep s] spec_pieces.simps[of sep s])
  next
    case False
    from "1.IH"[OF False]
    have "re_split sep (dropWhile sep (dropWhile (\<lambda>c. \<not> sep c) s))
            = spec_pieces sep (dropWhile sep (dropWhile (\<lambda>c. \<not> sep c) s))" .
    with False show ?thesis
      by (simp only: re_split_unfold[of sep s] spec_pieces.simps[of sep s] if_False)
  qed
qed






lemma find_result:
  assumes "long_tokens section = Inr st" "long_tokens issue_text = Inr it"
  shows "(find_paragraph_index_for_issue doc section issue_text = Inr None
            \<and> (\<forall>j < length doc. para_score st it (doc ! j) = 0))
       \<or> (\<exists>i < length doc. find_paragraph_index_for_issue doc section issue_text = Inr (Some i)
            \<and> 1 \<le> para_score st it (doc ! i)
            \<and> (\<forall>j < length doc. para_score st it (doc ! j) \<le> para_score st it (doc ! i))
            \<and> (\<forall>j < i. para_score st it (doc ! j) < para_score st it (doc ! i)))"
proof -
  obtain ri rs where r: "best_scan st it 0 doc (None, 0) = (ri, rs)"
    by (cases "best_scan st it 0 doc (None, 0)")
  have f: "find_paragraph_index_for_issue doc section issue_text = (if rs \<ge> 1 then Inr ri else Inr None)"
    using assms r by (simp add: find_paragraph_index_for_issue_def)
  from best_scan_result[OF r] show ?thesis
  proof
    assume "ri = None \<and> rs = 0 \<and> (\<forall>p \<in> set doc. para_score st it p \<le> 0)"
    with f show ?thesis by auto
  next
    assume "\<exists>k<length doc. ri = Some (0 + k) \<and> rs = para_score st it (doc ! k) \<and> 0 < rs
         \<and> (\<forall>j < length doc. para_score st it (doc ! j) \<le> rs)
         \<and> (\<forall>j < k. para_score st it (doc ! j) < rs)"
    then obtain k where k: "k < length doc" "ri = Some k" "rs = para_score st it (doc ! k)" "0 < rs"
        "\<forall>j < length doc. para_score st it (doc ! j) \<le> rs"
        "\<forall>j < k. para_score st it (doc ! j) < rs" by auto
    with f have "find_paragraph_index_for_issue doc section issue_text = Inr (Some k)" by simp
    with k show ?thesis by auto
  qed
qed

lemma find_error:
  "long_tokens section = Inl e \<Longrightarrow> find_paragraph_index_for_issue doc section issue_text = Inl e"
  "long_tokens section = Inr st \<Longrightarrow> long_tokens issue_text = Inl e
     \<Longrightarrow> find_paragraph_index_for_issue doc section issue_text = Inl e"
  by (simp_all add: find_paragraph_index_for_issue_def)

lemma find_index_bound:
  assumes "find_paragraph_index_for_issue doc section issue_text = Inr (Some i)"
  shows "i < length doc"
proof -
  from assms obtain st where st: "long_tokens section = Inr st"
    by (cases "long_tokens section") (auto simp: find_paragraph_index_for_issue_def)
  from assms st obtain it where it: "long_tokens issue_text = Inr it"
    by (cases "long_tokens issue_text") (auto simp: find_paragraph_index_for_issue_def)
  from find_result[OF st it, of doc] assms show ?thesis by auto
qed


section \<open>The paragraph lookup\<close>


section \<open>Concrete lookup\<close>

text \<open>
  Claim C5. For the paragraphs "ADGM Courts apply.", "Random text." and "Signed by
  director.", the section label "Jurisdiction clause" and the issue text "Jurisdiction
  clause does not specify ADGM", the lookup returns index 0.
\<close>

theorem jurisdiction_example_index:
  "find_paragraph_index_for_issue
     [''ADGM Courts apply.'', ''Random text.'', ''Signed by director.'']
     (PStr ''Jurisdiction clause'') (PStr ''Jurisdiction clause does not specify ADGM'')
   = Inr (Some 0)"
  by code_simp

section \<open>The process detector\<close>

lemma count_core_filter:
  "count_core labels = length (filter (\<lambda>l. l \<in> incorporation_keywords) labels)"
  by (induction labels) auto

lemma detect_process_count:
  "detect_process labels =
     (if 2 \<le> length (filter (\<lambda>l. l \<in> incorporation_keywords) labels)
      then ''Company Incorporation'' else ''Unknown / Other'')"
  by (cases labels) (simp_all add: detect_process_def count_core_filter)

text \<open>
  Claim C8. \<open>detect_process\<close> answers "Company Incorporation" exactly when at least two
  entries of the list, counted with repetition, are among the five incorporation labels,
  and "Unknown / Other" otherwise, also for the empty list; the two examples of the
  specification come out as stated.
\<close>

theorem detect_process_threshold:
  "(detect_process labels = ''Company Incorporation''
      \<longleftrightarrow> 2 \<le> length (filter (\<lambda>l. l \<in> incorporation_keywords) labels))
   \<and> (detect_process labels = ''Unknown / Other''
      \<longleftrightarrow> \<not> 2 \<le> length (filter (\<lambda>l. l \<in> incorporation_keywords) labels))
   \<and> incorporation_keywords =
       {''Articles of Association'', ''Memorandum of Association'',
        ''Incorporation Application Form'', ''UBO Declaration Form'',
        ''Register of Members and Directors''}
   \<and> detect_process [] = ''Unknown / Other''
   \<and> detect_process [''Articles of Association'', ''Memorandum of Association'']
       = ''Company Incorporation''
   \<and> detect_process [''Commercial Agreement / Other''] = ''Unknown / Other''"
proof (intro conjI)
  have ne: "''Company Incorporation'' \<noteq> ''Unknown / Other''" by simp
  show "detect_process labels = ''Company Incorporation''
      \<longleftrightarrow> 2 \<le> length (filter (\<lambda>l. l \<in> incorporation_keywords) labels)"
    using ne by (simp only: detect_process_count split: if_split) (simp only: simp_thms ne[symmetric])
  show "detect_process labels = ''Unknown / Other''
      \<longleftrightarrow> \<not> 2 \<le> length (filter (\<lambda>l. l \<in> incorporation_keywords) labels)"
    using ne by (simp only: detect_process_count split: if_split) (simp only: simp_thms ne)
  show "incorporation_keywords =
       {''Articles of Association'', ''Memorandum of Association'',
        ''Incorporation Application Form'', ''UBO Declaration Form'',
        ''Register of Members and Directors''}"
    by (simp only: incorporation_keywords_def set_simps)
  show "detect_process [] = ''Unknown / Other''"
    by code_simp
  show "detect_process [''Articles of Association'', ''Memorandum of Association'']
       = ''Company Incorporation''"
    by code_simp
  show "detect_process [''Commercial Agreement / Other''] = ''Unknown / Other''"
    by code_simp
qed

text \<open>
  The theorem at a list with a repeated core label, which reaches the threshold through
  the repetition.
\<close>

theorem detect_process_threshold_witness:
  "2 \<le> length (filter (\<lambda>l. l \<in> incorporation_keywords)
                   [''UBO Declaration Form'', ''Short Document'', ''UBO Declaration Form''])
   \<and> detect_process [''UBO Declaration Form'', ''Short Document'', ''UBO Declaration Form'']
     = ''Company Incorporation''"
proof -
  have c: "2 \<le> length (filter (\<lambda>l. l \<in> incorporation_keywords)
                   [''UBO Declaration Form'', ''Short Document'', ''UBO Declaration Form''])"
    by code_simp
  from detect_process_threshold
         [of "[''UBO Declaration Form'', ''Short Document'', ''UBO Declaration Form'']"]
  have "detect_process [''UBO Declaration Form'', ''Short Document'', ''UBO Declaration Form'']
          = ''Company Incorporation''
        \<longleftrightarrow> 2 \<le> length (filter (\<lambda>l. l \<in> incorporation_keywords)
                   [''UBO Declaration Form'', ''Short Document'', ''UBO Declaration Form''])"
    by (rule conjunct1)
  with c have "detect_process [''UBO Declaration Form'', ''Short Document'', ''UBO Declaration Form'']
          = ''Company Incorporation''"
    by (rule iffD2[rotated])
  with c show ?thesis by (rule conjI)
qed

section \<open>Annotation with no issues\<close>

text \<open>
  Claim C6. Annotating with the empty issue list gives back the paragraphs of the input,
  the same texts in the same order; the file written holds exactly the document that was
  loaded.
\<close>

theorem annotate_no_issues:
  "annotate doc [] = Inr doc
   \<and> (store original_path = Some doc \<longrightarrow>
        insert_review_notes_and_save store original_path [] out_path
          = Inr (store(out_path \<mapsto> doc), out_path))"
  by (simp add: insert_review_notes_and_save_def Document_def)

text \<open>The theorem at a stored document with three paragraphs, one of them empty.\<close>

theorem annotate_no_issues_witness:
  "[''in.docx'' \<mapsto> [''First.'', [], ''Second.'']] ''in.docx'' = Some [''First.'', [], ''Second.'']
   \<and> insert_review_notes_and_save [''in.docx'' \<mapsto> [''First.'', [], ''Second.'']] ''in.docx'' []
         ''reviewed_in.docx''
       = Inr ([''in.docx'' \<mapsto> [''First.'', [], ''Second.''],
               ''reviewed_in.docx'' \<mapsto> [''First.'', [], ''Second.'']], ''reviewed_in.docx'')"
  using annotate_no_issues [of "[''First.'', [], ''Second.'']"
          "[''in.docx'' \<mapsto> [''First.'', [], ''Second.'']]" "''in.docx''" "''reviewed_in.docx''"]
  by simp
section \<open>Writing a text into a paragraph\<close>

text \<open>
  A text all of whose characters are XML characters goes into the paragraph whole and
  reads back with every carriage return turned into a line feed; any other text makes
  the write raise.
\<close>

lemma xml_char_breaks: "xml_char (CHR 0x09)" "xml_char (CHR 0x0A)" "xml_char (CHR 0x0D)"
  by (simp_all add: xml_char_def)

lemma append_to_run_ok:
  "list_all xml_char bfr \<Longrightarrow> list_all xml_char cs \<Longrightarrow>
     append_to_run content bfr cs = (None, content @ bfr @ stored_text cs)"
proof (induction cs arbitrary: content bfr)
  case Nil
  then show ?case by (simp add: flush_def stored_text_def)
next
  case (Cons c cs)
  from Cons.prems have cs: "list_all xml_char cs" by simp
  have f: "flush content bfr = (None, content @ bfr)"
    using Cons.prems(1) by (simp add: flush_def)
  consider "c = CHR 0x09" | "c = CHR 0x0D \<or> c = CHR 0x0A" "c \<noteq> CHR 0x09"
    | "c \<noteq> CHR 0x09" "c \<noteq> CHR 0x0D" "c \<noteq> CHR 0x0A" by blast
  then show ?case
  proof cases
    case 1
    then show ?thesis
      using Cons.IH[of "[]" "(content @ bfr) @ [CHR 0x09]"] cs f
      by (simp add: stored_text_def)
  next
    case 2
    then show ?thesis
      using Cons.IH[of "[]" "(content @ bfr) @ [CHR 0x0A]"] cs f
      by (auto simp: stored_text_def)
  next
    case 3
    have "list_all xml_char (bfr @ [c])" using Cons.prems by simp
    from Cons.IH[OF this cs, of content] 3 show ?thesis
      by (simp add: stored_text_def)
  qed
qed

lemma append_to_run_bad:
  "\<not> list_all xml_char bfr \<or> \<not> list_all xml_char cs \<Longrightarrow>
     fst (append_to_run content bfr cs) = Some ValueError"
proof (induction cs arbitrary: content bfr)
  case Nil
  then have "\<not> list_all xml_char bfr" by simp
  then show ?case by (auto simp: flush_def)
next
  case (Cons c cs)
  show ?case
  proof (cases "list_all xml_char bfr")
    case False
    then have fb: "flush content bfr = (Some ValueError, content)"
      by (auto simp: flush_def)
    have "\<not> list_all xml_char (bfr @ [c])" using False by simp
    then have "fst (append_to_run content (bfr @ [c]) cs) = Some ValueError"
      using Cons.IH[of "bfr @ [c]" content] by blast
    with fb show ?thesis by simp
  next
    case True
    then have f: "flush content bfr = (None, content @ bfr)" by (simp add: flush_def)
    from True Cons.prems have bad: "\<not> xml_char c \<or> \<not> list_all xml_char cs" by simp
    show ?thesis
    proof (cases "c = CHR 0x09 \<or> c = CHR 0x0D \<or> c = CHR 0x0A")
      case True
      then have "xml_char c" using xml_char_breaks by auto
      with bad have "\<not> list_all xml_char cs" by simp
      then have "\<And>content. fst (append_to_run content [] cs) = Some ValueError"
        using Cons.IH[of "[]"] by blast
      with True f show ?thesis by auto
    next
      case False
      from bad have "\<not> list_all xml_char (bfr @ [c]) \<or> \<not> list_all xml_char cs" by auto
      then have "fst (append_to_run content (bfr @ [c]) cs) = Some ValueError"
        by (rule Cons.IH)
      with False show ?thesis by simp
    qed
  qed
qed

lemma add_run_ok: "list_all xml_char txt \<Longrightarrow> add_run txt = (None, stored_text txt)"
  using append_to_run_ok[of "[]" "txt" "[]"] by (simp add: add_run_def stored_text_def)

lemma add_run_bad: "\<not> list_all xml_char txt \<Longrightarrow> fst (add_run txt) = Some ValueError"
  using append_to_run_bad[of "[]" "txt" "[]"] by (auto simp: add_run_def)

lemma add_run_cases:
  "(list_all xml_char txt \<and> add_run txt = (None, stored_text txt))
   \<or> (\<not> list_all xml_char txt \<and> (\<exists>part. add_run txt = (Some ValueError, part)))"
proof (cases "list_all xml_char txt")
  case True
  then show ?thesis by (simp add: add_run_ok)
next
  case False
  from add_run_bad[OF False] have "\<exists>part. add_run txt = (Some ValueError, part)"
    by (cases "add_run txt") simp
  with False show ?thesis by blast
qed

lemma add_paragraph_ok:
  "list_all xml_char txt \<Longrightarrow> add_paragraph doc txt = Inr (doc @ [stored_text txt])"
  by (simp add: add_paragraph_def add_run_ok)

lemma add_paragraph_bad:
  "\<not> list_all xml_char txt \<Longrightarrow> add_paragraph doc txt = Inl ValueError"
  using add_run_bad[of "txt"] by (cases "add_run txt") (auto simp: add_paragraph_def)

lemma add_paragraph_Inr:
  "add_paragraph doc txt = Inr doc1 \<Longrightarrow> list_all xml_char txt \<and> doc1 = doc @ [stored_text txt]"
  by (cases "list_all xml_char txt") (simp_all add: add_paragraph_ok add_paragraph_bad)
section \<open>One round of the annotation loop\<close>

lemma general_note_xml: "list_all xml_char (general_note iss) = list_all xml_char (note_text iss)"
  by (simp add: general_note_def xml_char_def)

lemma insert_after_ok:
  "list_all xml_char t \<Longrightarrow> i < length doc \<Longrightarrow>
     snd (insert_after_paragraph doc i t) = take (Suc i) doc @ stored_text t # drop (Suc i) doc"
  by (simp add: insert_after_paragraph_def add_run_ok)

lemma insert_after_bad:
  "\<not> list_all xml_char t \<Longrightarrow> \<exists>part. snd (insert_after_paragraph doc i t) = doc @ [part]"
  using add_run_bad[of t] by (cases "add_run t") (auto simp: insert_after_paragraph_def)

lemma annotate_issue_targeted:
  assumes "py_truthy (section_of iss)" and "lookup_for doc iss = Inr (Some i)"
    and "list_all xml_char (note_text iss)"
  shows "annotate_issue doc iss
           = Inr (take (Suc i) doc @ stored_text (note_text iss) # drop (Suc i) doc)"
proof -
  from assms(2) have "i < length doc" by (rule find_index_bound)
  then show ?thesis
    using assms by (simp add: annotate_issue_def try_insert_def insert_after_ok)
qed

lemma annotate_issue_targeted_lost:
  assumes "py_truthy (section_of iss)" and "lookup_for doc iss = Inr (Some i)"
    and "\<not> list_all xml_char (note_text iss)"
  shows "\<exists>part. annotate_issue doc iss = Inr (doc @ [part])"
proof -
  from insert_after_bad[OF assms(3), of doc i] obtain part where
    "snd (insert_after_paragraph doc i (note_text iss)) = doc @ [part]" by blast
  then show ?thesis
    using assms(1,2) by (simp add: annotate_issue_def try_insert_def)
qed

lemma annotate_issue_fallback:
  assumes "\<not> py_truthy (section_of iss) \<or> lookup_for doc iss = Inr None
           \<or> (\<exists>e. lookup_for doc iss = Inl e)"
  shows "annotate_issue doc iss = add_paragraph doc (general_note iss)"
  using assms by (auto simp: annotate_issue_def try_insert_def Let_def)

lemma annotate_issue_Inr_shape:
  assumes "annotate_issue doc iss = Inr nxt"
  shows "\<exists>n p. nxt = take n doc @ p # drop n doc"
proof (cases "py_truthy (section_of iss) \<and> (\<exists>i. lookup_for doc iss = Inr (Some i))")
  case True
  then obtain i where t: "py_truthy (section_of iss)" and l: "lookup_for doc iss = Inr (Some i)"
    by blast
  show ?thesis
  proof (cases "list_all xml_char (note_text iss)")
    case True
    from annotate_issue_targeted[OF t l True] assms show ?thesis by auto
  next
    case False
    from annotate_issue_targeted_lost[OF t l False] obtain part where
      "annotate_issue doc iss = Inr (doc @ [part])" by blast
    with assms have "nxt = take (length doc) doc @ part # drop (length doc) doc" by simp
    then show ?thesis by blast
  qed
next
  case False
  then have "\<not> py_truthy (section_of iss) \<or> lookup_for doc iss = Inr None
           \<or> (\<exists>e. lookup_for doc iss = Inl e)"
    by (cases "lookup_for doc iss") auto
  from annotate_issue_fallback[OF this] assms
  have "add_paragraph doc (general_note iss) = Inr nxt" by simp
  from add_paragraph_Inr[OF this]
  have "nxt = take (length doc) doc @ stored_text (general_note iss) # drop (length doc) doc"
    by simp
  then show ?thesis by blast
qed

lemma subseq_insert: "subseq xs (take n xs @ y # drop n xs)"
proof -
  have a: "subseq (take n xs) (take n xs)"
    by (rule subseq_order.order_refl)
  have b: "subseq (drop n xs) (y # drop n xs)"
    by (rule list_emb_Cons) (rule subseq_order.order_refl)
  from list_emb_append_mono[OF a b] show ?thesis
    by (simp only: append_take_drop_id)
qed

lemma subseq_annotate_issue:
  assumes "annotate_issue doc iss = Inr nxt"
  shows "subseq doc nxt"
proof -
  from annotate_issue_Inr_shape[OF assms] obtain n p where "nxt = take n doc @ p # drop n doc"
    by blast
  then show ?thesis by (simp only: subseq_insert)
qed

lemma length_annotate_issue:
  assumes "annotate_issue doc iss = Inr nxt"
  shows "length nxt = Suc (length doc)"
proof -
  from annotate_issue_Inr_shape[OF assms] obtain n p where "nxt = take n doc @ p # drop n doc"
    by blast
  then have "length nxt = length (take n doc @ drop n doc) + 1" by simp
  then show ?thesis by simp
qed

lemma annotate_append:
  "annotate doc (xs @ ys) = (case annotate doc xs of Inl e \<Rightarrow> Inl e | Inr cur \<Rightarrow> annotate cur ys)"
  by (induction xs arbitrary: doc) (simp_all split: sum.splits)

lemma annotate_take_drop:
  assumes "annotate doc issues = Inr out"
  shows "\<exists>cur. annotate doc (take k issues) = Inr cur \<and> annotate cur (drop k issues) = Inr out"
proof -
  have "annotate doc (take k issues @ drop k issues) = Inr out" using assms by simp
  then show ?thesis
    unfolding annotate_append by (cases "annotate doc (take k issues)") simp_all
qed

lemma annotate_take_Suc:
  assumes "k < length issues" and "annotate doc (take k issues) = Inr cur"
  shows "annotate doc (take (Suc k) issues) = annotate_issue cur (issues ! k)"
proof -
  have "annotate doc (take k issues @ [issues ! k]) = annotate_issue cur (issues ! k)"
    unfolding annotate_append using assms(2) by (simp split: sum.splits)
  then show ?thesis using assms(1) by (simp add: take_Suc_conv_app_nth)
qed

lemma subseq_annotate: "annotate doc issues = Inr out \<Longrightarrow> subseq doc out"
proof (induction issues arbitrary: doc)
  case Nil
  then show ?case by simp
next
  case (Cons iss issues)
  from Cons.prems obtain nxt where n: "annotate_issue doc iss = Inr nxt"
    and r: "annotate nxt issues = Inr out"
    by (cases "annotate_issue doc iss") simp_all
  have "subseq doc nxt" using n by (rule subseq_annotate_issue)
  also have "subseq nxt out" using r by (rule Cons.IH)
  finally show ?case .
qed

lemma length_annotate:
  "annotate doc issues = Inr out \<Longrightarrow> length out = length doc + length issues"
proof (induction issues arbitrary: doc)
  case Nil
  then show ?case by simp
next
  case (Cons iss issues)
  from Cons.prems obtain nxt where n: "annotate_issue doc iss = Inr nxt"
    and r: "annotate nxt issues = Inr out"
    by (cases "annotate_issue doc iss") simp_all
  from Cons.IH[OF r] length_annotate_issue[OF n] show ?case by simp
qed
lemma mset_insert: "mset (take n xs @ y # drop n xs) = mset xs + {#y#}"
proof -
  have "mset (take n xs @ y # drop n xs) = mset (take n xs @ drop n xs) + {#y#}"
    by (simp only: mset_append mset.simps) simp
  then show ?thesis by simp
qed

lemma annotate_issue_clean:
  assumes "list_all xml_char (note_text iss)"
  shows "\<exists>nxt nt. annotate_issue doc iss = Inr nxt
           \<and> (nt = stored_text (note_text iss) \<or> nt = stored_text (general_note iss))
           \<and> mset nxt = mset doc + {#nt#}"
proof (cases "py_truthy (section_of iss) \<and> (\<exists>i. lookup_for doc iss = Inr (Some i))")
  case True
  then obtain i where t: "py_truthy (section_of iss)" and l: "lookup_for doc iss = Inr (Some i)"
    by blast
  from annotate_issue_targeted[OF t l assms]
  have a: "annotate_issue doc iss
             = Inr (take (Suc i) doc @ stored_text (note_text iss) # drop (Suc i) doc)" .
  have "mset (take (Suc i) doc @ stored_text (note_text iss) # drop (Suc i) doc)
          = mset doc + {#stored_text (note_text iss)#}"
    by (rule mset_insert)
  with a show ?thesis by blast
next
  case False
  then have "\<not> py_truthy (section_of iss) \<or> lookup_for doc iss = Inr None
           \<or> (\<exists>e. lookup_for doc iss = Inl e)"
    by (cases "lookup_for doc iss") auto
  from annotate_issue_fallback[OF this]
  have "annotate_issue doc iss = add_paragraph doc (general_note iss)" .
  also have "\<dots> = Inr (doc @ [stored_text (general_note iss)])"
    using assms by (simp add: add_paragraph_ok general_note_xml)
  finally have a: "annotate_issue doc iss = Inr (doc @ [stored_text (general_note iss)])" .
  have "mset (doc @ [stored_text (general_note iss)]) = mset doc + {#stored_text (general_note iss)#}"
    by simp
  with a show ?thesis by blast
qed

text \<open>
  When every note text consists of XML characters, annotation returns, and the paragraphs
  added are one note per issue, the targeted or the general one, as it reads back.
\<close>

lemma annotate_clean_notes:
  assumes "\<forall>iss \<in> set issues. list_all xml_char (note_text iss)"
  shows "\<exists>out nts. annotate doc issues = Inr out
           \<and> length nts = length issues
           \<and> (\<forall>k < length issues. nts ! k = stored_text (note_text (issues ! k))
                                  \<or> nts ! k = stored_text (general_note (issues ! k)))
           \<and> mset out = mset doc + mset nts"
  using assms
proof (induction issues arbitrary: doc)
  case Nil
  show ?case by simp
next
  case (Cons iss issues)
  from Cons.prems have c: "list_all xml_char (note_text iss)" by simp
  from annotate_issue_clean[OF c, of doc] obtain nxt nt where
    n: "annotate_issue doc iss = Inr nxt"
       "nt = stored_text (note_text iss) \<or> nt = stored_text (general_note iss)"
       "mset nxt = mset doc + {#nt#}" by blast
  from Cons.prems have "\<forall>iss \<in> set issues. list_all xml_char (note_text iss)" by simp
  from Cons.IH[OF this, of nxt] obtain out nts where
    r: "annotate nxt issues = Inr out" "length nts = length issues"
       "\<forall>k < length issues. nts ! k = stored_text (note_text (issues ! k))
                           \<or> nts ! k = stored_text (general_note (issues ! k))"
       "mset out = mset nxt + mset nts" by blast
  have 0: "annotate doc (iss # issues) = Inr out" using n(1) r(1) by simp
  have 1: "length (nt # nts) = length (iss # issues)" using r(2) by simp
  have 2: "\<forall>k < length (iss # issues).
             (nt # nts) ! k = stored_text (note_text ((iss # issues) ! k))
           \<or> (nt # nts) ! k = stored_text (general_note ((iss # issues) ! k))"
    using n(2) r(3) by (auto simp: nth_Cons split: nat.splits)
  have 3: "mset out = mset doc + mset (nt # nts)" using n(3) r(4) by simp
  from 0 1 2 3 show ?case by blast
qed

text \<open>
  The defaults of the note text: a record without severity reads "Medium", one without
  suggestion gets the empty string, and one without description reads "None".
\<close>

lemma note_text_defaults:
  "iss ''severity'' = None \<Longrightarrow>
     note_text iss = ''REVIEW NOTE (severity=Medium): '' @ py_str (dict_get iss ''issue'' PNone)
        @ ''. Suggestion: '' @ py_str (dict_get iss ''suggestion'' (PStr []))"
  "iss ''suggestion'' = None \<Longrightarrow>
     note_text iss = ''REVIEW NOTE (severity='' @ py_str (dict_get iss ''severity'' (PStr ''Medium''))
        @ ''): '' @ py_str (dict_get iss ''issue'' PNone) @ ''. Suggestion: ''"
  "iss ''issue'' = None \<Longrightarrow>
     note_text iss = ''REVIEW NOTE (severity='' @ py_str (dict_get iss ''severity'' (PStr ''Medium''))
        @ ''): None. Suggestion: '' @ py_str (dict_get iss ''suggestion'' (PStr []))"
  by (simp_all add: note_text_def dict_get_def)

text \<open>
  The fallback when the general note consists of XML characters: it is appended to the
  document as it stands and the issues behind it are processed from there. When it does
  not, the exception ends the annotation.
\<close>

lemma annotate_fallback_step:
  assumes "annotate doc before = Inr cur"
    and "\<not> py_truthy (section_of iss) \<or> lookup_for cur iss = Inr None
           \<or> (\<exists>e. lookup_for cur iss = Inl e)"
  shows "list_all xml_char (note_text iss) \<Longrightarrow>
           annotate doc (before @ iss # after)
             = annotate (cur @ [stored_text (general_note iss)]) after"
    and "\<not> list_all xml_char (note_text iss) \<Longrightarrow>
           annotate doc (before @ iss # after) = Inl ValueError"
proof -
  have a: "annotate doc (before @ iss # after)
             = (case annotate_issue cur iss of Inl e \<Rightarrow> Inl e | Inr nxt \<Rightarrow> annotate nxt after)"
    unfolding annotate_append using assms(1) by simp
  have b: "annotate_issue cur iss = add_paragraph cur (general_note iss)"
    using assms(2) by (rule annotate_issue_fallback)
  show "list_all xml_char (note_text iss) \<Longrightarrow>
           annotate doc (before @ iss # after)
             = annotate (cur @ [stored_text (general_note iss)]) after"
    unfolding a b by (simp add: add_paragraph_ok general_note_xml)
  show "\<not> list_all xml_char (note_text iss) \<Longrightarrow>
           annotate doc (before @ iss # after) = Inl ValueError"
    unfolding a b by (simp add: add_paragraph_bad general_note_xml)
qed

section \<open>Where the notes land\<close>

text \<open>
  Claim C3, as the code has it. When annotation returns, the original paragraphs keep
  their relative order in the annotated document. Round \<open>k\<close> runs on the live sequence,
  that is the original paragraphs together with what the rounds before have added. When
  the lookup selects index \<open>i\<close> there and the note text consists of XML characters, the
  note is put immediately behind paragraph \<open>i\<close> of the live sequence, everything else
  keeping its place; when the section label is empty or the lookup finds nothing or
  raises, the general note goes to the end. The sequence after round \<open>k\<close> is embedded in
  order in the final document, so a note never comes to stand before the paragraph it was
  put behind. What happens to a note text with other characters is not part of this
  statement.
\<close>

theorem annotate_positions:
  "annotate doc issues = Inr out \<longrightarrow>
     subseq doc out
     \<and> (\<forall>k < length issues. \<exists>cur nxt.
           annotate doc (take k issues) = Inr cur
         \<and> annotate doc (take (Suc k) issues) = Inr nxt
         \<and> subseq nxt out
         \<and> (\<forall>i. py_truthy (section_of (issues ! k))
                  \<and> lookup_for cur (issues ! k) = Inr (Some i)
                  \<and> list_all xml_char (note_text (issues ! k))
                \<longrightarrow> i < length cur
                   \<and> nxt = take (Suc i) cur @ stored_text (note_text (issues ! k)) # drop (Suc i) cur)
         \<and> (\<not> py_truthy (section_of (issues ! k))
               \<or> lookup_for cur (issues ! k) = Inr None
               \<or> (\<exists>e. lookup_for cur (issues ! k) = Inl e)
             \<longrightarrow> nxt = cur @ [stored_text (general_note (issues ! k))]))"
proof (intro impI conjI allI)
  assume a: "annotate doc issues = Inr out"
  then show "subseq doc out" by (rule subseq_annotate)
next
  fix k
  assume a: "annotate doc issues = Inr out" and k: "k < length issues"
  from annotate_take_drop[OF a, of "Suc k"] obtain nxt where
    nxt: "annotate doc (take (Suc k) issues) = Inr nxt"
    and rest: "annotate nxt (drop (Suc k) issues) = Inr out" by blast
  from annotate_take_drop[OF a, of k] obtain cur where
    cur: "annotate doc (take k issues) = Inr cur" by blast
  from annotate_take_Suc[OF k cur] nxt
  have step: "annotate_issue cur (issues ! k) = Inr nxt" by simp
  have s: "subseq nxt out" using rest by (rule subseq_annotate)
  have t: "\<forall>i. py_truthy (section_of (issues ! k))
                  \<and> lookup_for cur (issues ! k) = Inr (Some i)
                  \<and> list_all xml_char (note_text (issues ! k))
                \<longrightarrow> i < length cur
                   \<and> nxt = take (Suc i) cur @ stored_text (note_text (issues ! k)) # drop (Suc i) cur"
  proof (intro allI impI)
    fix i
    assume h: "py_truthy (section_of (issues ! k))
                  \<and> lookup_for cur (issues ! k) = Inr (Some i)
                  \<and> list_all xml_char (note_text (issues ! k))"
    then have "i < length cur" using find_index_bound by blast
    moreover from h have "annotate_issue cur (issues ! k)
           = Inr (take (Suc i) cur @ stored_text (note_text (issues ! k)) # drop (Suc i) cur)"
      using annotate_issue_targeted by blast
    ultimately show "i < length cur
                   \<and> nxt = take (Suc i) cur @ stored_text (note_text (issues ! k)) # drop (Suc i) cur"
      using step by simp
  qed
  have f: "\<not> py_truthy (section_of (issues ! k))
               \<or> lookup_for cur (issues ! k) = Inr None
               \<or> (\<exists>e. lookup_for cur (issues ! k) = Inl e)
             \<longrightarrow> nxt = cur @ [stored_text (general_note (issues ! k))]"
  proof
    assume "\<not> py_truthy (section_of (issues ! k))
               \<or> lookup_for cur (issues ! k) = Inr None
               \<or> (\<exists>e. lookup_for cur (issues ! k) = Inl e)"
    from annotate_issue_fallback[OF this] step
    have "add_paragraph cur (general_note (issues ! k)) = Inr nxt" by simp
    from add_paragraph_Inr[OF this]
    show "nxt = cur @ [stored_text (general_note (issues ! k))]" by simp
  qed
  from cur nxt s t f
  show "\<exists>cur nxt.
           annotate doc (take k issues) = Inr cur
         \<and> annotate doc (take (Suc k) issues) = Inr nxt
         \<and> subseq nxt out
         \<and> (\<forall>i. py_truthy (section_of (issues ! k))
                  \<and> lookup_for cur (issues ! k) = Inr (Some i)
                  \<and> list_all xml_char (note_text (issues ! k))
                \<longrightarrow> i < length cur
                   \<and> nxt = take (Suc i) cur @ stored_text (note_text (issues ! k)) # drop (Suc i) cur)
         \<and> (\<not> py_truthy (section_of (issues ! k))
               \<or> lookup_for cur (issues ! k) = Inr None
               \<or> (\<exists>e. lookup_for cur (issues ! k) = Inl e)
             \<longrightarrow> nxt = cur @ [stored_text (general_note (issues ! k))])"
    by blast
qed

text \<open>
  The theorem at a document of three paragraphs and two issues. The first note is put
  behind the second paragraph; the lookup for the second issue then selects that note, at
  index 2 of the live sequence of four, and the second note is put behind it, before the
  last paragraph.
\<close>

theorem annotate_positions_witness:
  "annotate [''Alpha clause here.'', ''Beta text.'', ''Gamma end.'']
       [[''section'' \<mapsto> PStr ''Beta'', ''issue'' \<mapsto> PStr ''mentions gamma delta''],
        [''section'' \<mapsto> PStr ''Alpha gamma delta'', ''issue'' \<mapsto> PStr ''x'']]
     = Inr [''Alpha clause here.'', ''Beta text.'',
            ''REVIEW NOTE (severity=Medium): mentions gamma delta. Suggestion: '',
            ''REVIEW NOTE (severity=Medium): x. Suggestion: '',
            ''Gamma end.'']
   \<and> lookup_for [''Alpha clause here.'', ''Beta text.'',
                  ''REVIEW NOTE (severity=Medium): mentions gamma delta. Suggestion: '',
                  ''Gamma end.'']
         [''section'' \<mapsto> PStr ''Alpha gamma delta'', ''issue'' \<mapsto> PStr ''x''] = Inr (Some 2)
   \<and> list_all xml_char (note_text [''section'' \<mapsto> PStr ''Alpha gamma delta'', ''issue'' \<mapsto> PStr ''x''])
   \<and> annotate [''Alpha clause here.'', ''Beta text.'', ''Gamma end.'']
       (take (Suc 1) [[''section'' \<mapsto> PStr ''Beta'', ''issue'' \<mapsto> PStr ''mentions gamma delta''],
                      [''section'' \<mapsto> PStr ''Alpha gamma delta'', ''issue'' \<mapsto> PStr ''x'']])
     = Inr (take (Suc 2) [''Alpha clause here.'', ''Beta text.'',
                  ''REVIEW NOTE (severity=Medium): mentions gamma delta. Suggestion: '',
                  ''Gamma end.'']
            @ stored_text (note_text [''section'' \<mapsto> PStr ''Alpha gamma delta'', ''issue'' \<mapsto> PStr ''x''])
            # drop (Suc 2) [''Alpha clause here.'', ''Beta text.'',
                  ''REVIEW NOTE (severity=Medium): mentions gamma delta. Suggestion: '',
                  ''Gamma end.''])
   \<and> subseq [''Alpha clause here.'', ''Beta text.'', ''Gamma end.'']
        [''Alpha clause here.'', ''Beta text.'',
            ''REVIEW NOTE (severity=Medium): mentions gamma delta. Suggestion: '',
            ''REVIEW NOTE (severity=Medium): x. Suggestion: '',
            ''Gamma end.'']"
proof -
  define D where "D = [''Alpha clause here.'', ''Beta text.'', ''Gamma end.'']"
  define J :: pydict where "J = [''section'' \<mapsto> PStr ''Alpha gamma delta'', ''issue'' \<mapsto> PStr ''x'']"
  define I where "I = [[''section'' \<mapsto> PStr ''Beta'', ''issue'' \<mapsto> PStr ''mentions gamma delta''], J]"
  define C where "C = [''Alpha clause here.'', ''Beta text.'',
                  ''REVIEW NOTE (severity=Medium): mentions gamma delta. Suggestion: '',
                  ''Gamma end.'']"
  define F where "F = [''Alpha clause here.'', ''Beta text.'',
            ''REVIEW NOTE (severity=Medium): mentions gamma delta. Suggestion: '',
            ''REVIEW NOTE (severity=Medium): x. Suggestion: '',
            ''Gamma end.'']"
  have e1: "annotate D I = Inr F" unfolding D_def I_def J_def F_def by code_simp
  have e2: "annotate D (take 1 I) = Inr C" unfolding D_def I_def J_def C_def by code_simp
  have e3: "py_truthy (section_of J)" unfolding J_def by code_simp
  have e4: "lookup_for C J = Inr (Some 2)" unfolding C_def J_def by code_simp
  have e5: "list_all xml_char (note_text J)" unfolding J_def by code_simp
  have k: "1 < length I" and j: "I ! 1 = J" unfolding I_def by simp_all
  have "annotate D I = Inr F \<longrightarrow>
     subseq D F
     \<and> (\<forall>k < length I. \<exists>cur nxt.
           annotate D (take k I) = Inr cur
         \<and> annotate D (take (Suc k) I) = Inr nxt
         \<and> subseq nxt F
         \<and> (\<forall>i. py_truthy (section_of (I ! k))
                  \<and> lookup_for cur (I ! k) = Inr (Some i)
                  \<and> list_all xml_char (note_text (I ! k))
                \<longrightarrow> i < length cur
                   \<and> nxt = take (Suc i) cur @ stored_text (note_text (I ! k)) # drop (Suc i) cur)
         \<and> (\<not> py_truthy (section_of (I ! k))
               \<or> lookup_for cur (I ! k) = Inr None
               \<or> (\<exists>e. lookup_for cur (I ! k) = Inl e)
             \<longrightarrow> nxt = cur @ [stored_text (general_note (I ! k))]))"
    by (rule annotate_positions)
  with e1 have main: "subseq D F
     \<and> (\<forall>k < length I. \<exists>cur nxt.
           annotate D (take k I) = Inr cur
         \<and> annotate D (take (Suc k) I) = Inr nxt
         \<and> subseq nxt F
         \<and> (\<forall>i. py_truthy (section_of (I ! k))
                  \<and> lookup_for cur (I ! k) = Inr (Some i)
                  \<and> list_all xml_char (note_text (I ! k))
                \<longrightarrow> i < length cur
                   \<and> nxt = take (Suc i) cur @ stored_text (note_text (I ! k)) # drop (Suc i) cur)
         \<and> (\<not> py_truthy (section_of (I ! k))
               \<or> lookup_for cur (I ! k) = Inr None
               \<or> (\<exists>e. lookup_for cur (I ! k) = Inl e)
             \<longrightarrow> nxt = cur @ [stored_text (general_note (I ! k))]))"
    by (rule rev_mp)
  then have s: "subseq D F" by (rule conjunct1)
  from main k obtain cur nxt where
    c: "annotate D (take 1 I) = Inr cur" and n: "annotate D (take (Suc 1) I) = Inr nxt"
    and t: "\<forall>i. py_truthy (section_of (I ! 1))
                  \<and> lookup_for cur (I ! 1) = Inr (Some i)
                  \<and> list_all xml_char (note_text (I ! 1))
                \<longrightarrow> i < length cur
                   \<and> nxt = take (Suc i) cur @ stored_text (note_text (I ! 1)) # drop (Suc i) cur"
    by blast
  from c e2 have "cur = C" by simp
  with t j e3 e4 e5 have "nxt = take (Suc 2) C @ stored_text (note_text J) # drop (Suc 2) C"
    by blast
  with n have r: "annotate D (take (Suc 1) I)
                  = Inr (take (Suc 2) C @ stored_text (note_text J) # drop (Suc 2) C)"
    by simp
  from e1 e4 e5 r s show ?thesis
    unfolding D_def I_def J_def C_def F_def by (intro conjI)
qed

text \<open>
  Claim C3 as stated fails on the code. In the document "Alpha clause here.", "Beta
  text." the second issue matches the first paragraph best (index 0), but it is looked up
  after the note of the first issue has been put behind "Beta text.", and that note
  scores higher: the second note lands at the end, behind the first note, and the
  paragraph behind "Alpha clause here." is still "Beta text.".
\<close>

theorem annotate_positions_counterexample:
  "find_paragraph_index_for_issue [''Alpha clause here.'', ''Beta text.'']
       (PStr ''Alpha gamma delta'') (PStr ''x'') = Inr (Some 0)
   \<and> annotate [''Alpha clause here.'', ''Beta text.'']
        [[''section'' \<mapsto> PStr ''Beta'', ''issue'' \<mapsto> PStr ''mentions gamma delta''],
         [''section'' \<mapsto> PStr ''Alpha gamma delta'', ''issue'' \<mapsto> PStr ''x'']]
       = Inr [''Alpha clause here.'', ''Beta text.'',
          ''REVIEW NOTE (severity=Medium): mentions gamma delta. Suggestion: '',
          ''REVIEW NOTE (severity=Medium): x. Suggestion: '']
   \<and> [''Alpha clause here.'', ''Beta text.'',
          ''REVIEW NOTE (severity=Medium): mentions gamma delta. Suggestion: '',
          ''REVIEW NOTE (severity=Medium): x. Suggestion: ''] ! 1
       \<noteq> stored_text (note_text [''section'' \<mapsto> PStr ''Alpha gamma delta'', ''issue'' \<mapsto> PStr ''x''])"
  by code_simp
section \<open>A note text the document library refuses\<close>

text \<open>
  Claim C1 against the code. The document has the one paragraph "Share capital."; the one
  issue has the section label "Capital" and a form feed in its description, as a decoded
  JSON answer can hold it. The lookup selects paragraph 0. Writing the note raises inside
  the handler of the insertion, which returns \<open>True\<close>, so that no general note is
  written either: the saved document has one paragraph more, but that paragraph is empty
  and the note is in none of its paragraphs.
\<close>

theorem annotate_loses_note:
  "note_text [''section'' \<mapsto> PStr ''Capital'', ''issue'' \<mapsto> PStr (''Amount'' @ [CHR 0x0C] @ ''missing''),
              ''severity'' \<mapsto> PStr ''High'']
     = ''REVIEW NOTE (severity=High): Amount'' @ [CHR 0x0C] @ ''missing. Suggestion: ''
   \<and> lookup_for [''Share capital.'']
        [''section'' \<mapsto> PStr ''Capital'', ''issue'' \<mapsto> PStr (''Amount'' @ [CHR 0x0C] @ ''missing''),
         ''severity'' \<mapsto> PStr ''High''] = Inr (Some 0)
   \<and> insert_review_notes_and_save [''a.docx'' \<mapsto> [''Share capital.'']] ''a.docx''
        [[''section'' \<mapsto> PStr ''Capital'', ''issue'' \<mapsto> PStr (''Amount'' @ [CHR 0x0C] @ ''missing''),
          ''severity'' \<mapsto> PStr ''High'']] ''b.docx''
      = Inr ([''a.docx'' \<mapsto> [''Share capital.''], ''b.docx'' \<mapsto> [''Share capital.'', []]],
             ''b.docx'')"
proof (intro conjI)
  show "note_text [''section'' \<mapsto> PStr ''Capital'', ''issue'' \<mapsto> PStr (''Amount'' @ [CHR 0x0C] @ ''missing''),
              ''severity'' \<mapsto> PStr ''High'']
     = ''REVIEW NOTE (severity=High): Amount'' @ [CHR 0x0C] @ ''missing. Suggestion: ''"
    by code_simp
  show "lookup_for [''Share capital.'']
        [''section'' \<mapsto> PStr ''Capital'', ''issue'' \<mapsto> PStr (''Amount'' @ [CHR 0x0C] @ ''missing''),
         ''severity'' \<mapsto> PStr ''High''] = Inr (Some 0)"
    by code_simp
  have "annotate [''Share capital.'']
        [[''section'' \<mapsto> PStr ''Capital'', ''issue'' \<mapsto> PStr (''Amount'' @ [CHR 0x0C] @ ''missing''),
          ''severity'' \<mapsto> PStr ''High'']]
      = Inr [''Share capital.'', []]"
    by code_simp
  then show "insert_review_notes_and_save [''a.docx'' \<mapsto> [''Share capital.'']] ''a.docx''
        [[''section'' \<mapsto> PStr ''Capital'', ''issue'' \<mapsto> PStr (''Amount'' @ [CHR 0x0C] @ ''missing''),
          ''severity'' \<mapsto> PStr ''High'']] ''b.docx''
      = Inr ([''a.docx'' \<mapsto> [''Share capital.''], ''b.docx'' \<mapsto> [''Share capital.'', []]],
             ''b.docx'')"
    by (simp add: insert_review_notes_and_save_def Document_def)
qed

text \<open>
  Claim C4 against the code. The first issue has no section label and a form feed in its
  description; the second has the label "Capital" and a plain description. The general
  note for the first is written outside every handler, so the exception leaves the
  function: nothing is saved and the second issue is never annotated, although on its own
  it is annotated without fault.
\<close>

theorem fallback_note_raises:
  "insert_review_notes_and_save [''a.docx'' \<mapsto> [''Share capital.'']] ''a.docx''
        [[''issue'' \<mapsto> PStr (''Bad'' @ [CHR 0x0C] @ ''char'')],
         [''section'' \<mapsto> PStr ''Capital'', ''issue'' \<mapsto> PStr ''Amount missing'']] ''b.docx''
      = Inl ValueError
   \<and> insert_review_notes_and_save [''a.docx'' \<mapsto> [''Share capital.'']] ''a.docx''
        [[''section'' \<mapsto> PStr ''Capital'', ''issue'' \<mapsto> PStr ''Amount missing'']] ''b.docx''
      = Inr ([''a.docx'' \<mapsto> [''Share capital.''],
              ''b.docx'' \<mapsto> [''Share capital.'',
                                ''REVIEW NOTE (severity=Medium): Amount missing. Suggestion: '']],
             ''b.docx'')"
proof (intro conjI)
  have "annotate [''Share capital.'']
        [[''issue'' \<mapsto> PStr (''Bad'' @ [CHR 0x0C] @ ''char'')],
         [''section'' \<mapsto> PStr ''Capital'', ''issue'' \<mapsto> PStr ''Amount missing'']]
      = Inl ValueError"
    by code_simp
  then show "insert_review_notes_and_save [''a.docx'' \<mapsto> [''Share capital.'']] ''a.docx''
        [[''issue'' \<mapsto> PStr (''Bad'' @ [CHR 0x0C] @ ''char'')],
         [''section'' \<mapsto> PStr ''Capital'', ''issue'' \<mapsto> PStr ''Amount missing'']] ''b.docx''
      = Inl ValueError"
    by (simp add: insert_review_notes_and_save_def Document_def)
  have "annotate [''Share capital.'']
        [[''section'' \<mapsto> PStr ''Capital'', ''issue'' \<mapsto> PStr ''Amount missing'']]
      = Inr [''Share capital.'', ''REVIEW NOTE (severity=Medium): Amount missing. Suggestion: '']"
    by code_simp
  then show "insert_review_notes_and_save [''a.docx'' \<mapsto> [''Share capital.'']] ''a.docx''
        [[''section'' \<mapsto> PStr ''Capital'', ''issue'' \<mapsto> PStr ''Amount missing'']] ''b.docx''
      = Inr ([''a.docx'' \<mapsto> [''Share capital.''],
              ''b.docx'' \<mapsto> [''Share capital.'',
                                ''REVIEW NOTE (severity=Medium): Amount missing. Suggestion: '']],
             ''b.docx'')"
    by (simp add: insert_review_notes_and_save_def Document_def)
qed
section \<open>The classifier\<close>

lemma split_runs_pieces:
  "\<forall>c \<in> set tok. \<not> sep c \<Longrightarrow> w \<in> set (split_runs sep tok b s) \<Longrightarrow> \<forall>c \<in> set w. \<not> sep c"
proof (induction s arbitrary: tok b)
  case Nil
  then show ?case by simp
next
  case (Cons c cs)
  show ?case
  proof (cases "sep c")
    case False
    with Cons.prems have "w \<in> set (split_runs sep (tok @ [c]) False cs)" by simp
    moreover from False Cons.prems(1) have "\<forall>d \<in> set (tok @ [c]). \<not> sep d" by simp
    ultimately show ?thesis using Cons.IH by blast
  next
    case True
    show ?thesis
    proof (cases b)
      case True
      with \<open>sep c\<close> Cons.prems have "w \<in> set (split_runs sep tok True cs)" by simp
      with Cons.prems(1) show ?thesis using Cons.IH by blast
    next
      case False
      with \<open>sep c\<close> Cons.prems have "w = tok \<or> w \<in> set (split_runs sep [] True cs)" by simp
      then show ?thesis
      proof
        assume "w = tok"
        with Cons.prems(1) show ?thesis by simp
      next
        assume "w \<in> set (split_runs sep [] True cs)"
        moreover have "\<forall>d \<in> set []. \<not> sep d" by simp
        ultimately show ?thesis using Cons.IH by blast
      qed
    qed
  qed
qed

lemma strip_no_space: "\<forall>c \<in> set w. \<not> is_space_char c \<Longrightarrow> strip w = w"
proof -
  assume a: "\<forall>c \<in> set w. \<not> is_space_char c"
  then have 1: "dropWhile is_space_char w = w"
    by (cases w) simp_all
  from a have "\<forall>c \<in> set (rev w). \<not> is_space_char c" by simp
  then have 2: "dropWhile is_space_char (rev w) = rev w"
    by (cases "rev w") simp_all
  show "strip w = w" by (simp add: strip_def 1 2)
qed

lemma word_count_tokens: "word_count s = token_count s"
proof -
  have "\<forall>w \<in> set (re_split is_space_char s). (strip w \<noteq> []) = (w \<noteq> [])"
  proof
    fix w assume "w \<in> set (re_split is_space_char s)"
    then have "\<forall>c \<in> set w. \<not> is_space_char c"
      unfolding re_split_def using split_runs_pieces[of "[]" is_space_char w False s] by simp
    then show "(strip w \<noteq> []) = (w \<noteq> [])" by (simp add: strip_no_space)
  qed
  then have "filter (\<lambda>w. strip w \<noteq> []) (re_split is_space_char s)
           = filter (\<lambda>w. w \<noteq> []) (re_split is_space_char s)"
    by (intro filter_cong refl) simp
  then show ?thesis
    by (simp add: word_count_def token_count_def re_split_space_def re_split_spec_pieces[symmetric])
qed

lemma classify_refines: "classify_doc_type txt = classify_spec txt"
  by (simp add: classify_doc_type_def classify_spec_def classify_rules_def Let_def word_count_tokens)

text \<open>
  Claim C7. \<open>classify_doc_type\<close> is a function of the lower-cased text alone, so that two
  texts that differ only in case get the same label. Its answer is that of the ordered
  rule list Articles, Memorandum, UBO, Register, Incorporation Application with the first
  match winning; when no rule matches, a text of fewer than 40 white-space delimited
  tokens is a "Short Document" and any other text is "Commercial Agreement / Other". The
  sentence "This is the Memorandum of Association of Example Ltd." is classified as
  "Memorandum of Association". The closed equations fix the count: forty tokens
  separated by blanks, tabs, no-break spaces and line feeds are no short document,
  thirty-nine are; and "moa" directly behind an accented letter is no keyword.
\<close>

theorem classify_priority_order:
  "classify_doc_type txt = classify_spec txt
   \<and> map snd classify_rules =
       [''Articles of Association'', ''Memorandum of Association'', ''UBO Declaration Form'',
        ''Register of Members and Directors'', ''Incorporation Application Form'']
   \<and> (lower txt = lower txt' \<longrightarrow> classify_doc_type txt = classify_doc_type txt')
   \<and> classify_doc_type ''This is the Memorandum of Association of Example Ltd.''
       = ''Memorandum of Association''
   \<and> token_count (concat (replicate 10 (''a b'' @ [CHR 0x09] @ ''c'' @ [CHR 0xA0] @ ''d'' @ [CHR 0x0A]))) = 40
   \<and> classify_doc_type (concat (replicate 10 (''a b'' @ [CHR 0x09] @ ''c'' @ [CHR 0xA0] @ ''d'' @ [CHR 0x0A])))
       = ''Commercial Agreement / Other''
   \<and> token_count (concat (replicate 9 (''a b'' @ [CHR 0x09] @ ''c'' @ [CHR 0xA0] @ ''d'' @ [CHR 0x0A]))
                     @ ''a b c'') = 39
   \<and> classify_doc_type (concat (replicate 9 (''a b'' @ [CHR 0x09] @ ''c'' @ [CHR 0xA0] @ ''d'' @ [CHR 0x0A]))
                           @ ''a b c'')
       = ''Short Document''
   \<and> classify_doc_type ([CHR 0xE9] @ ''moa'') = ''Short Document''"
proof (intro conjI impI)
  show "classify_doc_type txt = classify_spec txt" by (rule classify_refines)
  show "map snd classify_rules =
       [''Articles of Association'', ''Memorandum of Association'', ''UBO Declaration Form'',
        ''Register of Members and Directors'', ''Incorporation Application Form'']"
    by (simp add: classify_rules_def)
  show "classify_doc_type ''This is the Memorandum of Association of Example Ltd.''
       = ''Memorandum of Association''"
    by code_simp
  show "token_count (concat (replicate 10 (''a b'' @ [CHR 0x09] @ ''c'' @ [CHR 0xA0] @ ''d'' @ [CHR 0x0A]))) = 40"
    by (simp only: word_count_tokens[symmetric], code_simp)
  show "classify_doc_type (concat (replicate 10 (''a b'' @ [CHR 0x09] @ ''c'' @ [CHR 0xA0] @ ''d'' @ [CHR 0x0A])))
       = ''Commercial Agreement / Other''"
    by code_simp
  show "token_count (concat (replicate 9 (''a b'' @ [CHR 0x09] @ ''c'' @ [CHR 0xA0] @ ''d'' @ [CHR 0x0A]))
                     @ ''a b c'') = 39"
    by (simp only: word_count_tokens[symmetric], code_simp)
  show "classify_doc_type (concat (replicate 9 (''a b'' @ [CHR 0x09] @ ''c'' @ [CHR 0xA0] @ ''d'' @ [CHR 0x0A]))
                           @ ''a b c'')
       = ''Short Document''"
    by code_simp
  show "classify_doc_type ([CHR 0xE9] @ ''moa'') = ''Short Document''"
    by code_simp
next
  assume "lower txt = lower txt'"
  then show "classify_doc_type txt = classify_doc_type txt'"
    by (simp add: classify_doc_type_def)
qed

text \<open>
  The theorem at two texts that differ in case only and that hold patterns of the first
  two rules: the earlier rule wins for both.
\<close>

theorem classify_priority_order_witness:
  "lower ''The MOA and the AOA'' = lower ''the moa and the aoa''
   \<and> classify_doc_type ''The MOA and the AOA'' = classify_doc_type ''the moa and the aoa''
   \<and> classify_doc_type ''the moa and the aoa'' = ''Articles of Association''"
proof -
  have a: "lower ''The MOA and the AOA'' = lower ''the moa and the aoa''" by code_simp
  have "lower ''The MOA and the AOA'' = lower ''the moa and the aoa''
        \<longrightarrow> classify_doc_type ''The MOA and the AOA'' = classify_doc_type ''the moa and the aoa''"
    by (rule classify_priority_order [THEN conjunct2, THEN conjunct2, THEN conjunct1])
  with a have b: "classify_doc_type ''The MOA and the AOA'' = classify_doc_type ''the moa and the aoa''"
    by (rule rev_mp)
  have c: "classify_doc_type ''the moa and the aoa'' = ''Articles of Association''" by code_simp
  from a b c show ?thesis by (intro conjI)
qed
section \<open>The rule-based checks\<close>

lemma jurisdiction_issue_fields:
  "jurisdiction_issue pt ''section'' = Some (PStr ''Jurisdiction clause'')"
  "jurisdiction_issue pt ''severity'' = Some (PStr ''High'')"
  by (simp_all add: jurisdiction_issue_def)

lemma signatory_issue_fields:
  "signatory_issue pt ''section'' = Some (PStr ''Signatory section'')"
  "signatory_issue pt ''severity'' = Some (PStr ''Medium'')"
  by (simp_all add: signatory_issue_def)

lemma section_labels_differ:
  "PStr ''Signatory section'' \<noteq> PStr ''Jurisdiction clause''"
  by simp

text \<open>
  Claim C9. For every document the basic checks emit an issue with section label
  "Jurisdiction clause" and severity "High" if and only if the lower-cased text contains
  neither "adgm" nor "abu dhabi global market", and an issue with section label
  "Signatory section" and severity "Medium" if and only if it contains neither
  "signature" nor "signed".
\<close>

theorem basic_checks_rules:
  "((\<exists>iss \<in> set (basic_checks predicted_type txt).
        iss ''section'' = Some (PStr ''Jurisdiction clause'') \<and> iss ''severity'' = Some (PStr ''High''))
      \<longleftrightarrow> \<not> sublist ''adgm'' (lower txt) \<and> \<not> sublist ''abu dhabi global market'' (lower txt))
   \<and> ((\<exists>iss \<in> set (basic_checks predicted_type txt).
        iss ''section'' = Some (PStr ''Signatory section'') \<and> iss ''severity'' = Some (PStr ''Medium''))
      \<longleftrightarrow> \<not> sublist ''signature'' (lower txt) \<and> \<not> sublist ''signed'' (lower txt))"
proof -
  let ?J = "\<not> sublist ''adgm'' (lower txt) \<and> \<not> sublist ''abu dhabi global market'' (lower txt)"
  let ?S = "\<not> sublist ''signature'' (lower txt) \<and> \<not> sublist ''signed'' (lower txt)"
  have set_eq: "set (basic_checks predicted_type txt)
      = (if ?J then {jurisdiction_issue predicted_type} else {})
        \<union> (if ?S then {signatory_issue predicted_type} else {})"
    unfolding basic_checks_def by (simp only: set_append set_simps if_distrib[of set] cong: if_cong)
  have js: "jurisdiction_issue predicted_type ''section'' \<noteq> Some (PStr ''Signatory section'')"
    using section_labels_differ by (simp only: jurisdiction_issue_fields option.inject) simp
  have sj: "signatory_issue predicted_type ''section'' \<noteq> Some (PStr ''Jurisdiction clause'')"
    using section_labels_differ by (simp only: signatory_issue_fields option.inject) simp
  show ?thesis
    unfolding set_eq
    using js sj jurisdiction_issue_fields[of predicted_type] signatory_issue_fields[of predicted_type]
    by (cases ?J; cases ?S) (simp_all only: if_True if_False, auto)
qed

text \<open>
  The theorem at a text that names the ADGM and has no signature: only the signatory
  issue is emitted.
\<close>

theorem basic_checks_rules_witness:
  "sublist ''adgm'' (lower ''Governed by ADGM law.'')
   \<and> \<not> sublist ''signature'' (lower ''Governed by ADGM law.'')
   \<and> \<not> sublist ''signed'' (lower ''Governed by ADGM law.'')
   \<and> (\<exists>iss \<in> set (basic_checks ''Short Document'' ''Governed by ADGM law.'').
        iss ''section'' = Some (PStr ''Signatory section'') \<and> iss ''severity'' = Some (PStr ''Medium''))
   \<and> \<not> (\<exists>iss \<in> set (basic_checks ''Short Document'' ''Governed by ADGM law.'').
        iss ''section'' = Some (PStr ''Jurisdiction clause'') \<and> iss ''severity'' = Some (PStr ''High''))"
proof -
  have a: "sublist ''adgm'' (lower ''Governed by ADGM law.'')" by code_simp
  have b: "\<not> sublist ''signature'' (lower ''Governed by ADGM law.'')" by code_simp
  have c: "\<not> sublist ''signed'' (lower ''Governed by ADGM law.'')" by code_simp
  note t = basic_checks_rules [of "''Short Document''" "''Governed by ADGM law.''"]
  from t[THEN conjunct2] b c
  have d: "\<exists>iss \<in> set (basic_checks ''Short Document'' ''Governed by ADGM law.'').
        iss ''section'' = Some (PStr ''Signatory section'') \<and> iss ''severity'' = Some (PStr ''Medium'')"
    by blast
  from t[THEN conjunct1] a
  have e: "\<not> (\<exists>iss \<in> set (basic_checks ''Short Document'' ''Governed by ADGM law.'').
        iss ''section'' = Some (PStr ''Jurisdiction clause'') \<and> iss ''severity'' = Some (PStr ''High''))"
    by blast
  from a b c d e show ?thesis by (intro conjI)
qed
section \<open>The document loader\<close>

lemma strip_Nil: "strip [] = []"
  by (simp add: strip_def)

lemma kept_filter:
  "filter (\<lambda>t. t \<noteq> [] \<and> strip t \<noteq> []) doc = filter (\<lambda>t. strip t \<noteq> []) doc"
  by (rule filter_cong) (auto simp: strip_Nil)

lemma parse_docx_documents_result:
  "parse_docx_documents store paths = Inr out \<Longrightarrow>
     length out = length paths
     \<and> (\<forall>k < length paths. \<exists>doc. store (paths ! k) = Some doc
          \<and> doc_path (out ! k) = paths ! k
          \<and> doc_paragraphs (out ! k) = filter (\<lambda>t. strip t \<noteq> []) doc
          \<and> doc_text (out ! k) = join_newline (doc_paragraphs (out ! k)))"
proof (induction paths arbitrary: out)
  case Nil
  then show ?case by simp
next
  case (Cons p paths)
  from Cons.prems obtain doc where d: "store p = Some doc"
    by (cases "store p") (simp_all add: Document_def)
  from Cons.prems d obtain rest where r: "parse_docx_documents store paths = Inr rest"
    by (cases "parse_docx_documents store paths") (simp_all add: Document_def Let_def)
  let ?e = "\<lparr>doc_path = p, doc_text = join_newline (filter (\<lambda>t. strip t \<noteq> []) doc),
              doc_paragraphs = filter (\<lambda>t. strip t \<noteq> []) doc\<rparr>"
  from Cons.prems d r have o: "out = ?e # rest"
    by (simp add: Document_def Let_def kept_filter)
  from Cons.IH[OF r] have ih:
    "length rest = length paths"
    "\<forall>k < length paths. \<exists>doc. store (paths ! k) = Some doc
          \<and> doc_path (rest ! k) = paths ! k
          \<and> doc_paragraphs (rest ! k) = filter (\<lambda>t. strip t \<noteq> []) doc
          \<and> doc_text (rest ! k) = join_newline (doc_paragraphs (rest ! k))"
    by blast+
  have "\<forall>k < length (p # paths). \<exists>doc. store ((p # paths) ! k) = Some doc
          \<and> doc_path (out ! k) = (p # paths) ! k
          \<and> doc_paragraphs (out ! k) = filter (\<lambda>t. strip t \<noteq> []) doc
          \<and> doc_text (out ! k) = join_newline (doc_paragraphs (out ! k))"
  proof (intro allI impI)
    fix k assume k: "k < length (p # paths)"
    show "\<exists>doc. store ((p # paths) ! k) = Some doc
          \<and> doc_path (out ! k) = (p # paths) ! k
          \<and> doc_paragraphs (out ! k) = filter (\<lambda>t. strip t \<noteq> []) doc
          \<and> doc_text (out ! k) = join_newline (doc_paragraphs (out ! k))"
    proof (cases k)
      case 0
      with d o show ?thesis by simp
    next
      case (Suc j)
      with k have "j < length paths" by simp
      with ih(2) Suc o show ?thesis by simp
    qed
  qed
  with o ih(1) show ?case by simp
qed

lemma parse_docx_documents_returns:
  "\<forall>p \<in> set paths. store p \<noteq> None \<Longrightarrow> \<exists>out. parse_docx_documents store paths = Inr out"
proof (induction paths)
  case Nil
  show ?case by simp
next
  case (Cons p paths)
  then obtain doc where "store p = Some doc" by auto
  moreover from Cons obtain rest where "parse_docx_documents store paths = Inr rest" by auto
  ultimately show ?case by (simp add: Document_def Let_def)
qed

text \<open>
  Claim C10, as the code has it. When every path holds a document, the loader returns one
  entry per path, in order. The paragraphs of an entry are the paragraphs of the stored
  document whose text is not empty after stripping white space, in their original order,
  so that no empty or blank paragraph is among them, and the text of the entry is their
  join with newlines; this text is what the classifier and the rule-based checks get. The
  annotation engine does not get the parsed paragraphs: it opens the stored document
  again and works on all of its paragraphs, blank ones included.
\<close>

theorem parse_docx_documents_kept:
  "((\<forall>p \<in> set paths. store p \<noteq> None) \<longrightarrow> (\<exists>out. parse_docx_documents store paths = Inr out))
   \<and> (parse_docx_documents store paths = Inr out \<longrightarrow>
        length out = length paths
        \<and> (\<forall>k < length paths. \<exists>doc. store (paths ! k) = Some doc
             \<and> doc_path (out ! k) = paths ! k
             \<and> doc_paragraphs (out ! k) = filter (\<lambda>t. strip t \<noteq> []) doc
             \<and> doc_text (out ! k) = join_newline (doc_paragraphs (out ! k))
             \<and> (\<forall>t \<in> set (doc_paragraphs (out ! k)). t \<noteq> [] \<and> strip t \<noteq> [])
             \<and> (\<forall>issues out_path.
                   insert_review_notes_and_save store (doc_path (out ! k)) issues out_path
                     = (case annotate doc issues of
                          Inl e \<Rightarrow> Inl e
                        | Inr doc1 \<Rightarrow> Inr (store(out_path \<mapsto> doc1), out_path)))))"
proof (intro conjI impI)
  assume "\<forall>p \<in> set paths. store p \<noteq> None"
  then show "\<exists>out. parse_docx_documents store paths = Inr out"
    by (rule parse_docx_documents_returns)
next
  assume a: "parse_docx_documents store paths = Inr out"
  from parse_docx_documents_result[OF a]
  show "length out = length paths" by (rule conjunct1)
next
  assume a: "parse_docx_documents store paths = Inr out"
  note r = parse_docx_documents_result[OF a, THEN conjunct2]
  show "\<forall>k < length paths. \<exists>doc. store (paths ! k) = Some doc
             \<and> doc_path (out ! k) = paths ! k
             \<and> doc_paragraphs (out ! k) = filter (\<lambda>t. strip t \<noteq> []) doc
             \<and> doc_text (out ! k) = join_newline (doc_paragraphs (out ! k))
             \<and> (\<forall>t \<in> set (doc_paragraphs (out ! k)). t \<noteq> [] \<and> strip t \<noteq> [])
             \<and> (\<forall>issues out_path.
                   insert_review_notes_and_save store (doc_path (out ! k)) issues out_path
                     = (case annotate doc issues of
                          Inl e \<Rightarrow> Inl e
                        | Inr doc1 \<Rightarrow> Inr (store(out_path \<mapsto> doc1), out_path)))"
  proof (intro allI impI)
    fix k assume "k < length paths"
    with r obtain doc where d: "store (paths ! k) = Some doc"
          "doc_path (out ! k) = paths ! k"
          "doc_paragraphs (out ! k) = filter (\<lambda>t. strip t \<noteq> []) doc"
          "doc_text (out ! k) = join_newline (doc_paragraphs (out ! k))"
      by blast
    have e: "\<forall>t \<in> set (doc_paragraphs (out ! k)). t \<noteq> [] \<and> strip t \<noteq> []"
      using d(3) by (auto simp: strip_Nil)
    have f: "\<forall>issues out_path.
                   insert_review_notes_and_save store (doc_path (out ! k)) issues out_path
                     = (case annotate doc issues of
                          Inl e \<Rightarrow> Inl e
                        | Inr doc1 \<Rightarrow> Inr (store(out_path \<mapsto> doc1), out_path))"
      using d(1,2) by (simp add: insert_review_notes_and_save_def Document_def)
    from d e f show "\<exists>doc. store (paths ! k) = Some doc
             \<and> doc_path (out ! k) = paths ! k
             \<and> doc_paragraphs (out ! k) = filter (\<lambda>t. strip t \<noteq> []) doc
             \<and> doc_text (out ! k) = join_newline (doc_paragraphs (out ! k))
             \<and> (\<forall>t \<in> set (doc_paragraphs (out ! k)). t \<noteq> [] \<and> strip t \<noteq> [])
             \<and> (\<forall>issues out_path.
                   insert_review_notes_and_save store (doc_path (out ! k)) issues out_path
                     = (case annotate doc issues of
                          Inl e \<Rightarrow> Inl e
                        | Inr doc1 \<Rightarrow> Inr (store(out_path \<mapsto> doc1), out_path)))"
      by blast
  qed
qed

text \<open>
  The theorem at a store with one document of six paragraphs: one is empty, one holds
  blanks only, one a no-break space only and one a next-line character and a tab.
\<close>

theorem parse_docx_documents_kept_witness:
  "[''a.docx'' \<mapsto> [''Hello'', [], ''  '', [CHR 0xA0], [CHR 0x85, CHR 0x09], ''World'']] ''a.docx'' \<noteq> None
   \<and> parse_docx_documents [''a.docx'' \<mapsto> [''Hello'', [], ''  '', [CHR 0xA0], [CHR 0x85, CHR 0x09], ''World'']] [''a.docx'']
       = Inr [\<lparr>doc_path = ''a.docx'', doc_text = ''Hello'' @ [CHR 0x0A] @ ''World'',
                doc_paragraphs = [''Hello'', ''World'']\<rparr>]
   \<and> (\<exists>out. parse_docx_documents [''a.docx'' \<mapsto> [''Hello'', [], ''  '', [CHR 0xA0], [CHR 0x85, CHR 0x09], ''World'']] [''a.docx'']
              = Inr out)"
proof -
  let ?st = "[''a.docx'' \<mapsto> [''Hello'', [], ''  '', [CHR 0xA0], [CHR 0x85, CHR 0x09], ''World'']]"
  have a0: "?st ''a.docx'' \<noteq> None" by simp
  then have a: "\<forall>p \<in> set [''a.docx'']. ?st p \<noteq> None" by simp
  have b: "parse_docx_documents ?st [''a.docx'']
       = Inr [\<lparr>doc_path = ''a.docx'', doc_text = ''Hello'' @ [CHR 0x0A] @ ''World'',
                doc_paragraphs = [''Hello'', ''World'']\<rparr>]"
    by code_simp
  have "(\<forall>p \<in> set [''a.docx'']. ?st p \<noteq> None)
         \<longrightarrow> (\<exists>out. parse_docx_documents ?st [''a.docx''] = Inr out)"
    by (rule parse_docx_documents_kept [THEN conjunct1])
  with a have c: "\<exists>out. parse_docx_documents ?st [''a.docx''] = Inr out"
    by (rule rev_mp)
  from a0 b c show ?thesis by (intro conjI)
qed

text \<open>
  Claim C10 as stated fails on the code in its last part. The container below has an
  empty paragraph between "Hello" and "World". The parsed paragraphs are "Hello" and
  "World", but the annotation engine, called with the path of the parsed document, opens
  the container again: its paragraph sequence holds the empty string, the lookup for the
  label "World" answers index 2 and not 1, and the saved document still has the empty
  paragraph.
\<close>

theorem parse_docx_documents_kept_counterexample:
  "parse_docx_documents [''a.docx'' \<mapsto> [''Hello'', [], ''World'']] [''a.docx'']
       = Inr [\<lparr>doc_path = ''a.docx'', doc_text = ''Hello'' @ [CHR 0x0A] @ ''World'',
                doc_paragraphs = [''Hello'', ''World'']\<rparr>]
   \<and> Document [''a.docx'' \<mapsto> [''Hello'', [], ''World'']] ''a.docx'' = Inr [''Hello'', [], ''World'']
   \<and> [] \<in> set [''Hello'', [], ''World'']
   \<and> find_paragraph_index_for_issue [''Hello'', [], ''World''] (PStr ''World'') (PStr []) = Inr (Some 2)
   \<and> insert_review_notes_and_save [''a.docx'' \<mapsto> [''Hello'', [], ''World'']] ''a.docx''
        [[''section'' \<mapsto> PStr ''World'']] ''reviewed_a.docx''
       = Inr ([''a.docx'' \<mapsto> [''Hello'', [], ''World''],
               ''reviewed_a.docx'' \<mapsto>
                  [''Hello'', [], ''World'', ''REVIEW NOTE (severity=Medium): None. Suggestion: '']],
              ''reviewed_a.docx'')"
proof (intro conjI)
  show "parse_docx_documents [''a.docx'' \<mapsto> [''Hello'', [], ''World'']] [''a.docx'']
       = Inr [\<lparr>doc_path = ''a.docx'', doc_text = ''Hello'' @ [CHR 0x0A] @ ''World'',
                doc_paragraphs = [''Hello'', ''World'']\<rparr>]"
    by code_simp
  show "Document [''a.docx'' \<mapsto> [''Hello'', [], ''World'']] ''a.docx'' = Inr [''Hello'', [], ''World'']"
    by (simp add: Document_def)
  show "[] \<in> set [''Hello'', [], ''World'']" by simp
  show "find_paragraph_index_for_issue [''Hello'', [], ''World''] (PStr ''World'') (PStr []) = Inr (Some 2)"
    by code_simp
  have "annotate [''Hello'', [], ''World''] [[''section'' \<mapsto> PStr ''World'']]
          = Inr [''Hello'', [], ''World'', ''REVIEW NOTE (severity=Medium): None. Suggestion: '']"
    by code_simp
  then show "insert_review_notes_and_save [''a.docx'' \<mapsto> [''Hello'', [], ''World'']] ''a.docx''
        [[''section'' \<mapsto> PStr ''World'']] ''reviewed_a.docx''
       = Inr ([''a.docx'' \<mapsto> [''Hello'', [], ''World''],
               ''reviewed_a.docx'' \<mapsto>
                  [''Hello'', [], ''World'', ''REVIEW NOTE (severity=Medium): None. Suggestion: '']],
              ''reviewed_a.docx'')"
    by (simp add: insert_review_notes_and_save_def Document_def)
qed

end
